theory Spec2Isabelle
  imports Main "HOL-Library.Sublist"
begin

section \<open>The job service of linked-in-job.service.ts\<close>

text \<open>
  The service drives a browser page. Every call it issues to the page (and to the file
  system) is recorded, in order, in the field \<open>calls\<close> of the service; what the
  outside world answers is a deterministic function of the calls issued so far
  (a \<open>world\<close>). An awaited call either resolves or rejects; a rejection is the
  exception of the source and is threaded through the model as a value.
\<close>

subsection \<open>Data\<close>

text \<open>interface IAppliedJob\<close>

record appliedJob =
  title :: string
  company :: string
  appliedSuccessfully :: bool

text \<open>
  The object returned by loadJobDetails: each field is the trimmed text of an element,
  or undefined (\<open>None\<close>) when the element is missing.
\<close>

record jobDetails =
  detailsTitle :: "string option"
  detailsCompany :: "string option"
  detailsDescription :: "string option"

text \<open>interface IApplyForJobOptions\<close>

record applyForJobOptions =
  blackListCompanies :: "string list option"
  descriptionKeywords :: "string list option"

text \<open>
  The query types IQuery and IQueryOptions, with the fields buildUrl and getJobs read.
  The enums of the filters are not part of the sources; their values are strings.
\<close>

datatype onSiteOrRemoteFilter = Single string | Several "string list"

record queryFilters =
  relevance :: "string option"
  onSiteOrRemote :: "onSiteOrRemoteFilter option"
  timeFilter :: "string option"
  simplifiedJob :: "bool option"
  filterDescriptionKeywords :: "string list option"

record queryOptions =
  location :: "string option"
  filters :: "queryFilters option"
  queryBlackListCompanies :: "string list option"

record iquery =
  query :: "string option"
  options :: "queryOptions option"

text \<open>The entries of \<open>selectors\<close> the service uses.\<close>

datatype selector =
    Container | Jobs | Details | JobApply | JobApllyButton | JobsResumeItem
  | JobsResumeItemButton | JobApplyClose | JobApplyPorcentBar
  | ConfirmCancelApplyButton | PaginationNextBtn

text \<open>
  A JavaScript number as parseInt returns it: an integer or NaN. A reading of
  \<open>ariaValueNow\<close> is \<open>Absent\<close> when the attribute is null or the empty string
  (falsy), and otherwise \<open>Parsed n\<close>, with \<open>n\<close> what parseInt makes of the string;
  the code uses nothing else of the string.
\<close>

datatype number = Finite int | NaN

datatype reading = Absent | Parsed number

text \<open>
  The calls the service issues. \<open>Detached cs\<close> is a call of an async method that is
  not awaited (closeApply without await): its calls \<open>cs\<close> run beside the caller and
  their failure never reaches it.
\<close>

datatype event =
    ReadFile
  | WriteFile "appliedJob list"
  | Goto "(string \<times> string) list"
  | WaitForSelector selector
  | QuerySelector selector
  | QuerySelectorAll selector
  | Click selector
  | ClickHandle selector
  | ClickJob nat
  | ScrollToEnd
  | EvaluateDetails
  | AriaValueNow
  | Detached "event list"

text \<open>
  The class LinkedInJobsService: its array \<open>appliedJobs\<close>, and the calls issued so far.
\<close>

record service =
  appliedJobs :: "appliedJob list"
  calls :: "event list"

text \<open>
  The outside world. Each answer depends on the whole history of calls, the last of
  which is the call being answered.
  \<^item> \<open>storedJobs\<close>: what readFile and JSON.parse give at start (\<open>None\<close>: they throw);
  \<^item> \<open>resolves\<close>: whether the awaited call resolves (else it rejects);
  \<^item> \<open>present\<close>: whether \<open>page.$\<close> found an element (else null);
  \<^item> \<open>jobCards\<close>: how many handles \<open>page.$$\<close> returns (\<open>None\<close>: undefined);
  \<^item> \<open>extracted\<close>: the object \<open>page.evaluate\<close> returns in loadJobDetails;
  \<^item> \<open>ariaValueNow\<close>: the attribute read from the progress bar;
  \<^item> \<open>toLocaleLowerCase\<close>: the builtin String.prototype.toLocaleLowerCase of the host,
    under its locale. It is not code of the service and depends on the host, so it is
    taken as it comes: nothing is assumed of it.
\<close>

record world =
  storedJobs :: "appliedJob list option"
  resolves :: "event list \<Rightarrow> bool"
  present :: "event list \<Rightarrow> bool"
  jobCards :: "event list \<Rightarrow> nat option"
  extracted :: "event list \<Rightarrow> jobDetails option"
  ariaValueNow :: "event list \<Rightarrow> reading"
  toLocaleLowerCase :: "string \<Rightarrow> string"

subsection \<open>JavaScript primitives\<close>

text \<open>Truthiness of \<open>string | undefined\<close>: defined and not empty.\<close>

fun truthy :: "string option \<Rightarrow> bool" where
  "truthy None = False"
| "truthy (Some s) = (s \<noteq> [])"

fun str :: "string option \<Rightarrow> string" where
  "str None = []"
| "str (Some s) = s"

text \<open>Strict equality and \<open><\<close> on numbers: every comparison with NaN is false.\<close>

fun strictEq :: "number \<Rightarrow> number \<Rightarrow> bool" where
  "strictEq (Finite a) (Finite b) = (a = b)"
| "strictEq _ _ = False"

fun lessThan_num :: "number \<Rightarrow> number \<Rightarrow> bool" where
  "lessThan_num (Finite a) (Finite b) = (a < b)"
| "lessThan_num _ _ = False"

text \<open>
  String.prototype.includes is the test for a contiguous sublist. \<open>lowerAscii\<close> lowers
  the letters A to Z and leaves every other character; it is not the builtin
  toLocaleLowerCase, only the lowering that the worlds of the concrete runs below use.
\<close>

definition includes_str :: "string \<Rightarrow> string \<Rightarrow> bool" where
  "includes_str s k = sublist k s"

definition lowerChar :: "char \<Rightarrow> char" where
  "lowerChar c =
     (let n = (of_char c :: nat) in if 65 \<le> n \<and> n \<le> 90 then char_of (n + 32) else c)"

definition lowerAscii :: "string \<Rightarrow> string" where
  "lowerAscii s = map lowerChar s"

text \<open>Array.prototype.join\<close>

fun join :: "string \<Rightarrow> string list \<Rightarrow> string" where
  "join sep [] = []"
| "join sep [x] = x"
| "join sep (x # y # ys) = x @ sep @ join sep (y # ys)"

subsection \<open>Issuing calls\<close>

definition emit :: "event \<Rightarrow> service \<Rightarrow> service" where
  "emit e s = s\<lparr>calls := calls s @ [e]\<rparr>"

text \<open>An awaited call: issued, then resolved (True) or rejected (False).\<close>

definition await :: "world \<Rightarrow> event \<Rightarrow> service \<Rightarrow> bool \<times> service" where
  "await w e s = (let s' = emit e s in (resolves w (calls s'), s'))"

text \<open>Awaited calls one after the other; the first rejection ends the sequence.\<close>

fun awaitAll :: "world \<Rightarrow> event list \<Rightarrow> service \<Rightarrow> bool \<times> service" where
  "awaitAll w [] s = (True, s)"
| "awaitAll w (e # es) s =
     (let (ok, s') = await w e s in if ok then awaitAll w es s' else (False, s'))"

text \<open>
  writeAppliedJobs (lines 393-396): push, then writeFile of the whole array. No caller
  awaits it, so a failing write is never seen by the service.
\<close>

definition writeAppliedJobs :: "appliedJob \<Rightarrow> service \<Rightarrow> service" where
  "writeAppliedJobs job s =
     (let s' = s\<lparr>appliedJobs := appliedJobs s @ [job]\<rparr>
      in emit (WriteFile (appliedJobs s')) s')"

text \<open>closeApply (lines 383-391): the calls it makes, and the awaited call of it.\<close>

definition closeApplyCalls :: "bool \<Rightarrow> event list" where
  "closeApplyCalls confirm =
     [WaitForSelector JobApplyClose, Click JobApplyClose] @
     (if confirm then [WaitForSelector ConfirmCancelApplyButton, Click ConfirmCancelApplyButton]
      else [])"

definition closeApply :: "world \<Rightarrow> bool \<Rightarrow> service \<Rightarrow> bool \<times> service" where
  "closeApply w confirm s = awaitAll w (closeApplyCalls confirm) s"

definition closeApplyDetached :: "bool \<Rightarrow> service \<Rightarrow> service" where
  "closeApplyDetached confirm s = emit (Detached (closeApplyCalls confirm)) s"

subsection \<open>buildUrl (lines 148-180)\<close>

text \<open>The URL is the list of search parameters set, in the order they are set.\<close>

definition buildUrl :: "string option \<Rightarrow> queryOptions option \<Rightarrow> (string \<times> string) list" where
  "buildUrl q opts =
     (let fs = (case opts of None \<Rightarrow> None | Some o1 \<Rightarrow> filters o1) in
      (if truthy q then [(''keywords'', str q)] else []) @
      (case opts of None \<Rightarrow> [] | Some o1 \<Rightarrow>
         if truthy (location o1) then [(''location'', str (location o1))] else []) @
      (case fs of None \<Rightarrow> [] | Some f \<Rightarrow>
         (if truthy (relevance f) then [(''sortBy'', str (relevance f))] else []) @
         (if truthy (timeFilter f) then [(''f_TPR'', str (timeFilter f))] else []) @
         (case onSiteOrRemote f of
            None \<Rightarrow> []
          | Some (Single v) \<Rightarrow> if v \<noteq> [] then [(''f_WT'', v)] else []
          | Some (Several vs) \<Rightarrow> [(''f_WT'', join '','' vs)]) @
         (if simplifiedJob f = Some True then [(''f_AL'', ''true'')] else [])))"

subsection \<open>Screening (applyForJob, lines 229-276)\<close>

datatype skipReason = IncompleteDetails | AlreadyApplied | Blacklisted | KeywordMismatch

datatype decision = Accept | Skip skipReason

text \<open>
  The four guarded returns of applyForJob, in the order of the source. Each \<open>Skip\<close> is a
  \<open>return\<close> after a warning; \<open>Accept\<close> is reaching line 278. \<open>lower\<close> is the
  builtin toLocaleLowerCase of the host.
\<close>

definition screen ::
  "(string \<Rightarrow> string) \<Rightarrow> jobDetails \<Rightarrow> appliedJob list \<Rightarrow> applyForJobOptions option
     \<Rightarrow> decision" where
  "screen lower d ledger opts =
     (if \<not> truthy (detailsTitle d) \<or> \<not> truthy (detailsCompany d)
         \<or> \<not> truthy (detailsDescription d)
      then Skip IncompleteDetails
      else if length ledger > 0 \<and>
              find (\<lambda>a. title a = str (detailsTitle d) \<and> company a = str (detailsCompany d)) ledger
                \<noteq> None
      then Skip AlreadyApplied
      else if truthy (detailsCompany d) \<and>
              (case opts of None \<Rightarrow> False | Some o1 \<Rightarrow>
                 (case blackListCompanies o1 of None \<Rightarrow> False
                  | Some bl \<Rightarrow> str (detailsCompany d) \<in> set bl))
      then Skip Blacklisted
      else if truthy (detailsDescription d) \<and>
              (case opts of None \<Rightarrow> False | Some o1 \<Rightarrow>
                 (case descriptionKeywords o1 of None \<Rightarrow> False
                  | Some ks \<Rightarrow>
                      \<not> list_ex (\<lambda>keyword.
                           includes_str (lower (str (detailsDescription d)))
                                        (lower keyword)) ks))
      then Skip KeywordMismatch
      else Accept)"

subsection \<open>The wizard (applyForJob, lines 278-381)\<close>

text \<open>
  How the do-while loop (lines 328-365) ends: by the break of line 356, by its condition
  being false, or by an exception; each with the value of \<open>porcentNumber\<close>. One pass
  through its body either ends the loop or goes \<open>Again\<close>.
\<close>

datatype loopEnd =
    Broke number service
  | CondFalse number service
  | LoopThrew service

datatype iteration = Again number service | Ended loopEnd

text \<open>Lines 363-365: the primary button is clicked, then the loop condition is tested.\<close>

definition advance :: "world \<Rightarrow> number \<Rightarrow> service \<Rightarrow> iteration" where
  "advance w porcentNumber s =
     (let (ok, s') = awaitAll w [WaitForSelector JobApllyButton, Click JobApllyButton] s in
      if \<not> ok then Ended (LoopThrew s')
      else if lessThan_num porcentNumber (Finite 100) then Again porcentNumber s'
      else Ended (CondFalse porcentNumber s'))"

text \<open>Lines 329-365, one pass.\<close>

definition steppingBody :: "world \<Rightarrow> string \<Rightarrow> string \<Rightarrow> number \<Rightarrow> service \<Rightarrow> iteration" where
  "steppingBody w t c porcentNumber s =
     (let (ok1, s1) = await w (WaitForSelector JobApplyPorcentBar) s in
      if \<not> ok1 then Ended (LoopThrew s1) else
      let (ok2, s2) = await w AriaValueNow s1 in
      if \<not> ok2 then Ended (LoopThrew s2) else
      (case ariaValueNow w (calls s2) of
         Absent \<Rightarrow> advance w porcentNumber s2
       | Parsed v \<Rightarrow>
           if \<not> strictEq v (Finite 0) \<and> strictEq v porcentNumber
           then
             (let s3 = writeAppliedJobs
                         \<lparr>title = t, company = c, appliedSuccessfully = False\<rparr> s2;
                  (ok4, s4) = closeApply w True s3
              in if ok4 then Ended (Broke porcentNumber s4) else Ended (LoopThrew s4))
           else advance w v s2))"

text \<open>
  The do-while loop. It has no bound of its own, so it is a partial function: \<open>None\<close>
  is a loop that never ends.
\<close>

partial_function (option) stepping ::
  "world \<Rightarrow> string \<Rightarrow> string \<Rightarrow> number \<Rightarrow> service \<Rightarrow> loopEnd option" where
  "stepping w t c porcentNumber s =
     (case steppingBody w t c porcentNumber s of
        Again porcentNumber' s' \<Rightarrow> stepping w t c porcentNumber' s'
      | Ended e \<Rightarrow> Some e)"

declare stepping.simps [code]

text \<open>
  At most \<open>n\<close> passes of the loop: \<open>Again\<close> when the loop is still running after them.
\<close>

fun passes :: "nat \<Rightarrow> world \<Rightarrow> string \<Rightarrow> string \<Rightarrow> number \<Rightarrow> service \<Rightarrow> iteration" where
  "passes 0 w t c porcentNumber s = Again porcentNumber s"
| "passes (Suc n) w t c porcentNumber s =
     (case steppingBody w t c porcentNumber s of
        Again porcentNumber' s' \<Rightarrow> passes n w t c porcentNumber' s'
      | Ended e \<Rightarrow> Ended e)"

text \<open>
  The return points of applyForJob: \<open>NoJobDetails\<close> line 226, \<open>Skipped\<close> lines 235, 249,
  258 and 275, \<open>ApplyUnavailable\<close> line 282 (the click on the apply control rejected; the
  AlreadyApplied state of the specification), \<open>ZeroProgress\<close> line 307, \<open>Completed\<close> the end
  of the block of lines 367-380, \<open>Stuck\<close> the end of the function after the break of line
  356, \<open>LeftLoop\<close> the end of the function after the loop condition failed with a value
  other than 100, and \<open>Threw\<close> an exception that leaves the function.
\<close>

datatype outcome =
    NoJobDetails | Skipped skipReason | ApplyUnavailable | ZeroProgress
  | Stuck | Completed | LeftLoop | Threw

text \<open>loadJobDetails (lines 188-213)\<close>

definition loadJobDetails :: "world \<Rightarrow> service \<Rightarrow> bool \<times> jobDetails option \<times> service" where
  "loadJobDetails w s =
     (let (ok, s') = awaitAll w [WaitForSelector Details, EvaluateDetails] s in
      (ok, extracted w (calls s'), s'))"

text \<open>
  Lines 311-325: the try block selecting a resume; its catch writes the record and calls
  closeApply(true) without await, and has no return.
\<close>

definition selectResume :: "world \<Rightarrow> string \<Rightarrow> string \<Rightarrow> service \<Rightarrow> service" where
  "selectResume w t c s =
     (let (ok, s') = awaitAll w [WaitForSelector JobsResumeItem, Click JobsResumeItemButton,
                                 Click JobApllyButton] s in
      if ok then s'
      else closeApplyDetached True
             (writeAppliedJobs \<lparr>title = t, company = c, appliedSuccessfully = False\<rparr> s'))"

text \<open>Lines 367-381: after the loop.\<close>

definition afterLoop :: "world \<Rightarrow> string \<Rightarrow> string \<Rightarrow> loopEnd \<Rightarrow> outcome \<times> service" where
  "afterLoop w t c e =
     (let completes = (\<lambda>s.
            let (ok, s') = closeApply w False
                  (writeAppliedJobs \<lparr>title = t, company = c, appliedSuccessfully = True\<rparr> s)
            in (if ok then Completed else Threw, s'))
      in case e of
           LoopThrew s \<Rightarrow> (Threw, s)
         | Broke n s \<Rightarrow> if strictEq n (Finite 100) then completes s else (Stuck, s)
         | CondFalse n s \<Rightarrow> if strictEq n (Finite 100) then completes s else (LeftLoop, s))"

text \<open>Lines 278-381, entered with the title and the company of an accepted listing.\<close>

definition wizard :: "world \<Rightarrow> string \<Rightarrow> string \<Rightarrow> service \<Rightarrow> (outcome \<times> service) option" where
  "wizard w t c s =
     (let (ok1, s1) = await w (Click JobApply) s in
      if \<not> ok1 then Some (ApplyUnavailable, s1) else
      let (ok2, s2) = awaitAll w [WaitForSelector JobApllyButton, Click JobApllyButton,
                                  WaitForSelector JobApplyPorcentBar, AriaValueNow] s1 in
      if \<not> ok2 then Some (Threw, s2) else
      if (case ariaValueNow w (calls s2) of Absent \<Rightarrow> False
          | Parsed v \<Rightarrow> strictEq v (Finite 0))
      then Some (ZeroProgress,
                 closeApplyDetached True
                   (writeAppliedJobs \<lparr>title = t, company = c, appliedSuccessfully = False\<rparr> s2))
      else
        (case stepping w t c (Finite 0) (selectResume w t c s2) of
           None \<Rightarrow> None
         | Some e \<Rightarrow> Some (afterLoop w t c e)))"

text \<open>applyForJob (lines 215-381) on the listing with handle \<open>job\<close>.\<close>

definition applyForJob ::
  "world \<Rightarrow> nat \<Rightarrow> applyForJobOptions option \<Rightarrow> service \<Rightarrow> (outcome \<times> service) option" where
  "applyForJob w job opts s =
     (let (ok1, s1) = await w (ClickJob job) s in
      if \<not> ok1 then Some (Threw, s1) else
      let (ok2, found, s2) = loadJobDetails w s1 in
      if \<not> ok2 then Some (Threw, s2) else
      (case found of
         None \<Rightarrow> Some (NoJobDetails, s2)
       | Some d \<Rightarrow>
           (case screen (toLocaleLowerCase w) d (appliedJobs s2) opts of
              Skip r \<Rightarrow> Some (Skipped r, s2)
            | Accept \<Rightarrow> wizard w (str (detailsTitle d)) (str (detailsCompany d)) s2)))"

subsection \<open>getJobs (lines 100-146)\<close>

text \<open>
  The loop over the listings of a page (lines 131-141): an exception of applyForJob is
  caught, and closeApply(true) is called without await.
\<close>

fun applyAll :: "world \<Rightarrow> applyForJobOptions \<Rightarrow> nat list \<Rightarrow> service \<Rightarrow> service option" where
  "applyAll w opts [] s = Some s"
| "applyAll w opts (job # js) s =
     (case applyForJob w job (Some opts) s of
        None \<Rightarrow> None
      | Some (out, s') \<Rightarrow>
          applyAll w opts js (if out = Threw then closeApplyDetached True s' else s'))"

text \<open>
  The body of the loop over the queries (lines 107-144). \<open>goto\<close> is not awaited. The
  result says whether getJobs returns (line 126) or goes on with the next query.
\<close>

datatype queryEnd = Returns | Continues

definition runQuery :: "world \<Rightarrow> iquery \<Rightarrow> service \<Rightarrow> (queryEnd \<times> service) option" where
  "runQuery w q s =
     (let s0 = emit (Goto (buildUrl (query q) (options q))) s;
          (ok1, s1) = awaitAll w [WaitForSelector Container, QuerySelector Container] s0 in
      if \<not> ok1 then Some (Continues, s1) else
      let (ok2, s2) = (if present w (calls s1) then await w ScrollToEnd s1 else (True, s1)) in
      if \<not> ok2 then Some (Continues, s2) else
      let (ok3, s3) = await w (QuerySelectorAll Jobs) s2 in
      if \<not> ok3 then Some (Continues, s3) else
      (case jobCards w (calls s3) of
         None \<Rightarrow> Some (Returns, s3)
       | Some n \<Rightarrow>
           (case applyAll w
                   \<lparr>blackListCompanies =
                      Some (case options q of None \<Rightarrow> []
                            | Some o1 \<Rightarrow> (case queryBlackListCompanies o1 of None \<Rightarrow> [] | Some bl \<Rightarrow> bl)),
                    descriptionKeywords =
                      (case options q of None \<Rightarrow> None
                       | Some o1 \<Rightarrow> (case filters o1 of None \<Rightarrow> None
                                      | Some f \<Rightarrow> filterDescriptionKeywords f))\<rparr>
                   [0..<n] s3 of
              None \<Rightarrow> None
            | Some s4 \<Rightarrow> Some (Continues, s4))))"

fun getJobs :: "world \<Rightarrow> iquery list \<Rightarrow> service \<Rightarrow> service option" where
  "getJobs w [] s = Some s"
| "getJobs w (q # qs) s =
     (case runQuery w q s of
        None \<Rightarrow> None
      | Some (Returns, s') \<Rightarrow> Some s'
      | Some (Continues, s') \<Rightarrow> getJobs w qs s')"

subsection \<open>init (lines 74-98)\<close>

text \<open>
  The try block of lines 84-96 with the page counter: the button is looked up; when it
  is there, the counter is incremented, the button clicked and the container awaited.
  \<open>Caught\<close> is the catch block, which breaks out of the loop.
\<close>

datatype paging = Turned nat service | NoButton nat service | Caught nat service

definition nextPage :: "world \<Rightarrow> nat \<Rightarrow> service \<Rightarrow> paging" where
  "nextPage w page s =
     (let (ok1, s1) = await w (QuerySelector PaginationNextBtn) s in
      if \<not> ok1 then Caught page s1 else
      if present w (calls s1) then
        (let (ok2, s2) = awaitAll w [ClickHandle PaginationNextBtn, WaitForSelector Container] s1
         in if ok2 then Turned (page + 1) s2 else Caught (page + 1) s2)
      else NoButton page s1)"

text \<open>
  The do-while loop of lines 81-97; it returns the last value of the page counter with
  the service.
\<close>

function pageLoop :: "world \<Rightarrow> iquery list \<Rightarrow> nat \<Rightarrow> service \<Rightarrow> (nat \<times> service) option" where
  "pageLoop w queries page s =
     (case getJobs w queries s of
        None \<Rightarrow> None
      | Some s1 \<Rightarrow>
          (case nextPage w page s1 of
             Caught page' s2 \<Rightarrow> Some (page', s2)
           | NoButton page' s2 \<Rightarrow> Some (page', s2)
           | Turned page' s2 \<Rightarrow>
               if page' < 5 then pageLoop w queries page' s2
               else Some (page', s2)))"
  by pat_completeness auto
termination
  by (relation "measure (\<lambda>(w, queries, page, s). 5 - page)")
     (auto simp: nextPage_def Let_def split: prod.splits if_splits)

declare pageLoop.simps [simp del]

text \<open>
  init: the ledger is read and parsed (a failure rejects init), then the page loop runs
  from page 1.
\<close>

datatype initEnd = InitRejected service | InitDone nat service

definition init :: "world \<Rightarrow> iquery list \<Rightarrow> service \<Rightarrow> initEnd option" where
  "init w queries s =
     (let s0 = emit ReadFile s in
      case storedJobs w of
        None \<Rightarrow> Some (InitRejected s0)
      | Some stored \<Rightarrow>
          (case pageLoop w queries 1 (s0\<lparr>appliedJobs := stored\<rparr>) of
             None \<Rightarrow> None
           | Some (page, s') \<Rightarrow> Some (InitDone page s')))"

text \<open>The service as its constructor leaves it.\<close>

definition newService :: service where
  "newService = \<lparr>appliedJobs = [], calls = []\<rparr>"

subsection \<open>Kinds of calls\<close>

text \<open>
  The calls made by applyForJob (other than the write of the ledger), those made by
  getJobs around it, and those made by the paging step of init; and the service an
  iteration or the loop ends with.
\<close>

fun wizardEvent :: "event \<Rightarrow> bool" where
  "wizardEvent (ClickJob j) = True"
| "wizardEvent (WaitForSelector sel) = (sel \<noteq> Container)"
| "wizardEvent EvaluateDetails = True"
| "wizardEvent (Click sel) = True"
| "wizardEvent AriaValueNow = True"
| "wizardEvent (Detached cs) = True"
| "wizardEvent e = False"

fun queryEvent :: "event \<Rightarrow> bool" where
  "queryEvent (Goto u) = True"
| "queryEvent (WaitForSelector sel) = (sel = Container)"
| "queryEvent (QuerySelector sel) = (sel = Container)"
| "queryEvent (QuerySelectorAll sel) = True"
| "queryEvent ScrollToEnd = True"
| "queryEvent e = False"

fun pagingEvent :: "event \<Rightarrow> bool" where
  "pagingEvent (QuerySelector sel) = (sel = PaginationNextBtn)"
| "pagingEvent (ClickHandle sel) = True"
| "pagingEvent (WaitForSelector sel) = (sel = Container)"
| "pagingEvent e = False"

fun endService :: "loopEnd \<Rightarrow> service" where
  "endService (Broke n s) = s"
| "endService (CondFalse n s) = s"
| "endService (LoopThrew s) = s"

fun iterationService :: "iteration \<Rightarrow> service" where
  "iterationService (Again n s) = s"
| "iterationService (Ended e) = endService e"

subsection \<open>Measures of a run\<close>

text \<open>
  The arrays written to the file, in order; the ledger kept from the load on
  (\<open>ledgerKept stored before s\<close>: the calls made since \<open>before\<close> start with the one read of
  the file, the ledger extends what was read, and each write holds the whole ledger as it
  was then); the service a paging step ends with; how often the next-page control was
  looked up and clicked; how often a search URL was requested, and how many of the
  queries ask for it; and a paging step that fails: the lookup rejects, or the control
  is found and the click, or then the wait for the container, rejects.
\<close>

text \<open>
  The ledger in the loop entered with the ledger \<open>a\<close>: unchanged while the loop runs
  (with \<open>porcentNumber\<close> below 100) and when its condition fails, extended by the record
  \<open>r\<close> at the break.
\<close>

fun loopLedger :: "appliedJob list \<Rightarrow> appliedJob \<Rightarrow> iteration \<Rightarrow> bool" where
  "loopLedger a r (Again n s) \<longleftrightarrow> appliedJobs s = a \<and> lessThan_num n (Finite 100)"
| "loopLedger a r (Ended (Broke n s)) \<longleftrightarrow>
     appliedJobs s = a @ [r] \<and> lessThan_num n (Finite 100)"
| "loopLedger a r (Ended (CondFalse n s)) \<longleftrightarrow>
     appliedJobs s = a \<and> \<not> lessThan_num n (Finite 100)"
| "loopLedger a r (Ended (LoopThrew s)) \<longleftrightarrow> appliedJobs s = a \<or> appliedJobs s = a @ [r]"

fun payload :: "event \<Rightarrow> appliedJob list option" where
  "payload (WriteFile js) = Some js"
| "payload e = None"

definition payloads :: "event list \<Rightarrow> appliedJob list list" where
  "payloads cs = List.map_filter payload cs"

definition ledgerKept :: "appliedJob list \<Rightarrow> event list \<Rightarrow> service \<Rightarrow> bool" where
  "ledgerKept stored before s \<longleftrightarrow>
     prefix stored (appliedJobs s) \<and>
     (\<exists>rest. calls s = before @ ReadFile # rest \<and> ReadFile \<notin> set rest \<and>
        payloads rest = map (\<lambda>n. take n (appliedJobs s))
                          [Suc (length stored) ..< Suc (length (appliedJobs s))])"

fun pagingService :: "paging \<Rightarrow> service" where
  "pagingService (Turned page s) = s"
| "pagingService (NoButton page s) = s"
| "pagingService (Caught page s) = s"

definition lookups :: "event list \<Rightarrow> nat" where
  "lookups cs = count_list cs (QuerySelector PaginationNextBtn)"

definition clicks :: "event list \<Rightarrow> nat" where
  "clicks cs = count_list cs (ClickHandle PaginationNextBtn)"

definition requests :: "(string \<times> string) list \<Rightarrow> event list \<Rightarrow> nat" where
  "requests url cs = count_list cs (Goto url)"

definition asking :: "(string \<times> string) list \<Rightarrow> iquery list \<Rightarrow> nat" where
  "asking url queries = length (filter (\<lambda>q. buildUrl (query q) (options q) = url) queries)"

definition pagingFails :: "world \<Rightarrow> service \<Rightarrow> bool" where
  "pagingFails w s \<longleftrightarrow>
     (let c1 = calls s @ [QuerySelector PaginationNextBtn] in
      \<not> resolves w c1 \<or>
      (present w c1 \<and>
         (\<not> resolves w (c1 @ [ClickHandle PaginationNextBtn]) \<or>
          \<not> resolves w (c1 @ [ClickHandle PaginationNextBtn, WaitForSelector Container]))))"

subsection \<open>The screening rules in the words of the specification\<close>

text \<open>
  shouldApply of the specification, rule by rule: a field is missing when it is empty or
  was not extracted; the listing is in the ledger when some record has its title and its
  company; an entry occurs in the description when, both lowered by toLocaleLowerCase (the
  parameter \<open>lower\<close>), it is a substring of it. The keyword rule is a parameter, given
  in two readings: \<open>keywordMismatch_spec\<close> asks for a non-empty list of keywords,
  \<open>keywordMismatch_given\<close> for a list that is given, empty or not.
\<close>

definition missing :: "string option \<Rightarrow> bool" where
  "missing x \<longleftrightarrow> x = None \<or> x = Some []"

definition incompleteDetails :: "jobDetails \<Rightarrow> bool" where
  "incompleteDetails d \<longleftrightarrow>
     missing (detailsTitle d) \<or> missing (detailsCompany d) \<or> missing (detailsDescription d)"

definition inLedger :: "jobDetails \<Rightarrow> appliedJob list \<Rightarrow> bool" where
  "inLedger d ledger \<longleftrightarrow>
     (str (detailsTitle d), str (detailsCompany d)) \<in> set (map (\<lambda>a. (title a, company a)) ledger)"

definition blacklistOf :: "applyForJobOptions option \<Rightarrow> string list" where
  "blacklistOf opts =
     (case opts of None \<Rightarrow> []
      | Some o1 \<Rightarrow> (case blackListCompanies o1 of None \<Rightarrow> [] | Some bl \<Rightarrow> bl))"

definition keywordsOf :: "applyForJobOptions option \<Rightarrow> string list option" where
  "keywordsOf opts = (case opts of None \<Rightarrow> None | Some o1 \<Rightarrow> descriptionKeywords o1)"

definition occursIn :: "(string \<Rightarrow> string) \<Rightarrow> string \<Rightarrow> string \<Rightarrow> bool" where
  "occursIn lower k description \<longleftrightarrow> sublist (lower k) (lower description)"

definition noneOccurs :: "(string \<Rightarrow> string) \<Rightarrow> string list \<Rightarrow> jobDetails \<Rightarrow> bool" where
  "noneOccurs lower ks d \<longleftrightarrow>
     \<not> (\<exists>k \<in> set ks. occursIn lower k (str (detailsDescription d)))"

definition keywordMismatch_spec ::
  "(string \<Rightarrow> string) \<Rightarrow> jobDetails \<Rightarrow> applyForJobOptions option \<Rightarrow> bool" where
  "keywordMismatch_spec lower d opts \<longleftrightarrow>
     (case keywordsOf opts of None \<Rightarrow> False
      | Some ks \<Rightarrow> ks \<noteq> [] \<and> noneOccurs lower ks d)"

definition keywordMismatch_given ::
  "(string \<Rightarrow> string) \<Rightarrow> jobDetails \<Rightarrow> applyForJobOptions option \<Rightarrow> bool" where
  "keywordMismatch_given lower d opts \<longleftrightarrow>
     (case keywordsOf opts of None \<Rightarrow> False | Some ks \<Rightarrow> noneOccurs lower ks d)"

definition shouldApply ::
  "jobDetails \<Rightarrow> appliedJob list \<Rightarrow> applyForJobOptions option \<Rightarrow> bool \<Rightarrow> decision" where
  "shouldApply d ledger opts keywordMismatch =
     (if incompleteDetails d then Skip IncompleteDetails
      else if inLedger d ledger then Skip AlreadyApplied
      else if str (detailsCompany d) \<in> set (blacklistOf opts) then Skip Blacklisted
      else if keywordMismatch then Skip KeywordMismatch
      else Accept)"

subsection \<open>Worlds for concrete runs\<close>

text \<open>
  A listing with complete details, and a world in which every call resolves, every
  listing shows these details and the progress bar gives the readings \<open>rs\<close> one after
  the other (the first to the read of line 293, the next ones to the reads in the loop).
  The host of this world, and of the worlds below, lowers the letters A to Z.
\<close>

definition listing :: jobDetails where
  "listing = \<lparr>detailsTitle = Some ''API Dev'', detailsCompany = Some ''Acme'',
              detailsDescription = Some ''Node/AWS role''\<rparr>"

definition readingAt :: "int list \<Rightarrow> event list \<Rightarrow> reading" where
  "readingAt rs cs =
     (let i = count_list cs AriaValueNow - 1
      in if i < length rs then Parsed (Finite (rs ! i)) else Absent)"

definition progressWorld :: "int list \<Rightarrow> world" where
  "progressWorld rs =
     \<lparr>storedJobs = Some [], resolves = (\<lambda>cs. True), present = (\<lambda>cs. False),
      jobCards = (\<lambda>cs. Some 1), extracted = (\<lambda>cs. Some listing),
      ariaValueNow = readingAt rs, toLocaleLowerCase = lowerAscii\<rparr>"

text \<open>Listings and options of the keyword examples, and a listing without description.\<close>

definition reactListing :: jobDetails where
  "reactListing = \<lparr>detailsTitle = Some ''API Dev'', detailsCompany = Some ''Acme'',
                   detailsDescription = Some ''Seeking a React developer''\<rparr>"

definition nodeListing :: jobDetails where
  "nodeListing = \<lparr>detailsTitle = Some ''API Dev'', detailsCompany = Some ''Acme'',
                  detailsDescription = Some ''NODE and aws experience required''\<rparr>"

definition emptyDescription :: jobDetails where
  "emptyDescription = \<lparr>detailsTitle = Some ''API Dev'', detailsCompany = Some ''Acme'',
                       detailsDescription = Some []\<rparr>"

definition nodeAws :: applyForJobOptions where
  "nodeAws = \<lparr>blackListCompanies = Some [''Toro''], descriptionKeywords = Some [''Node'', ''AWS'']\<rparr>"

definition noKeywords :: applyForJobOptions where
  "noKeywords = \<lparr>blackListCompanies = Some [], descriptionKeywords = Some []\<rparr>"


text \<open>
  The world of \<open>progressWorld\<close> in which waiting for the resume picker rejects (no resume
  to select).
\<close>

definition noResumeWorld :: "int list \<Rightarrow> world" where
  "noResumeWorld rs =
     (progressWorld rs)
       \<lparr>resolves := (\<lambda>cs. cs = [] \<or> last cs \<noteq> WaitForSelector JobsResumeItem)\<rparr>"

text \<open>
  Two queries, and a world whose result pages hold no listing and show the next-page
  button to the first \<open>n\<close> lookups.
\<close>

definition nodeQuery :: iquery where
  "nodeQuery = \<lparr>query = Some ''Node'', options = None\<rparr>"

definition awsQuery :: iquery where
  "awsQuery =
     \<lparr>query = Some ''AWS'',
      options = Some \<lparr>location = Some ''Toronto'',
                      filters = Some \<lparr>relevance = Some ''DD'',
                                      onSiteOrRemote = Some (Several [''2'', ''3'']),
                                      timeFilter = None, simplifiedJob = Some True,
                                      filterDescriptionKeywords = None\<rparr>,
                      queryBlackListCompanies = None\<rparr>\<rparr>"

definition pagingWorld :: "nat \<Rightarrow> world" where
  "pagingWorld n =
     \<lparr>storedJobs = Some [], resolves = (\<lambda>cs. True),
      present = (\<lambda>cs. cs \<noteq> [] \<and> (last cs = QuerySelector Container
                   \<or> count_list cs (QuerySelector PaginationNextBtn) \<le> n)),
      jobCards = (\<lambda>cs. Some 0), extracted = (\<lambda>cs. None),
      ariaValueNow = (\<lambda>cs. Absent), toLocaleLowerCase = lowerAscii\<rparr>"





text \<open>
  A world with a stored ledger, one listing on each page and the readings 10 and 100; a
  world without listings whose pages always show the next-page control; and that world
  with the lookup of the control rejecting.
\<close>

definition ledgerWorld :: world where
  "ledgerWorld =
     (progressWorld [10, 100])
       \<lparr>storedJobs := Some [\<lparr>title = ''Backend Eng'', company = ''Toro'',
                              appliedSuccessfully = False\<rparr>]\<rparr>"


definition alwaysNextWorld :: world where
  "alwaysNextWorld =
     \<lparr>storedJobs = Some [], resolves = (\<lambda>cs. True), present = (\<lambda>cs. True),
      jobCards = (\<lambda>cs. Some 0), extracted = (\<lambda>cs. None), ariaValueNow = (\<lambda>cs. Absent),
      toLocaleLowerCase = lowerAscii\<rparr>"

definition lookupFailsWorld :: world where
  "lookupFailsWorld =
     alwaysNextWorld
       \<lparr>resolves := (\<lambda>cs. cs = [] \<or> last cs \<noteq> QuerySelector PaginationNextBtn)\<rparr>"

section \<open>Progress monitoring\<close>

text \<open>
  Claim C3. The wizard as a function of the readings of the progress bar, every call
  resolving. On [0] the first read is 0: the record with appliedSuccessfully = False is
  written, closeApply(true) is called, and applyForJob returns at line 307 (the zero-progress
  case of Stuck). On [10, 40, 70, 100] the loop ends at 100: one record with
  appliedSuccessfully = True, and closeApply without confirmation. On [20, 55, 55] the
  break of line 356 is taken at the second 55: one record with appliedSuccessfully = False,
  and closeApply(true). In any pass of the loop whose reading is the integer \<open>v\<close>, the
  break is taken exactly when \<open>v\<close> is not 0 and equals \<open>porcentNumber\<close>, which is 0 on
  entry (not the first read) and after that the reading of the pass before.
\<close>

theorem progress_monitoring:
  "applyForJob (progressWorld [0]) 0 None newService =
     Some (ZeroProgress,
       \<lparr>appliedJobs = [\<lparr>title = ''API Dev'', company = ''Acme'', appliedSuccessfully = False\<rparr>],
        calls = [ClickJob 0, WaitForSelector Details, EvaluateDetails, Click JobApply,
                 WaitForSelector JobApllyButton, Click JobApllyButton,
                 WaitForSelector JobApplyPorcentBar, AriaValueNow,
                 WriteFile [\<lparr>title = ''API Dev'', company = ''Acme'', appliedSuccessfully = False\<rparr>],
                 Detached [WaitForSelector JobApplyClose, Click JobApplyClose,
                           WaitForSelector ConfirmCancelApplyButton,
                           Click ConfirmCancelApplyButton]]\<rparr>)
   \<and> applyForJob (progressWorld [10, 40, 70, 100]) 0 None newService =
     Some (Completed,
       \<lparr>appliedJobs = [\<lparr>title = ''API Dev'', company = ''Acme'', appliedSuccessfully = True\<rparr>],
        calls = [ClickJob 0, WaitForSelector Details, EvaluateDetails, Click JobApply,
                 WaitForSelector JobApllyButton, Click JobApllyButton,
                 WaitForSelector JobApplyPorcentBar, AriaValueNow,
                 WaitForSelector JobsResumeItem, Click JobsResumeItemButton, Click JobApllyButton,
                 WaitForSelector JobApplyPorcentBar, AriaValueNow,
                 WaitForSelector JobApllyButton, Click JobApllyButton,
                 WaitForSelector JobApplyPorcentBar, AriaValueNow,
                 WaitForSelector JobApllyButton, Click JobApllyButton,
                 WaitForSelector JobApplyPorcentBar, AriaValueNow,
                 WaitForSelector JobApllyButton, Click JobApllyButton,
                 WriteFile [\<lparr>title = ''API Dev'', company = ''Acme'', appliedSuccessfully = True\<rparr>],
                 WaitForSelector JobApplyClose, Click JobApplyClose]\<rparr>)
   \<and> applyForJob (progressWorld [20, 55, 55]) 0 None newService =
     Some (Stuck,
       \<lparr>appliedJobs = [\<lparr>title = ''API Dev'', company = ''Acme'', appliedSuccessfully = False\<rparr>],
        calls = [ClickJob 0, WaitForSelector Details, EvaluateDetails, Click JobApply,
                 WaitForSelector JobApllyButton, Click JobApllyButton,
                 WaitForSelector JobApplyPorcentBar, AriaValueNow,
                 WaitForSelector JobsResumeItem, Click JobsResumeItemButton, Click JobApllyButton,
                 WaitForSelector JobApplyPorcentBar, AriaValueNow,
                 WaitForSelector JobApllyButton, Click JobApllyButton,
                 WaitForSelector JobApplyPorcentBar, AriaValueNow,
                 WriteFile [\<lparr>title = ''API Dev'', company = ''Acme'', appliedSuccessfully = False\<rparr>],
                 WaitForSelector JobApplyClose, Click JobApplyClose,
                 WaitForSelector ConfirmCancelApplyButton, Click ConfirmCancelApplyButton]\<rparr>)
   \<and> ((\<forall>cs. resolves w cs) \<and>
        ariaValueNow w (calls s @ [WaitForSelector JobApplyPorcentBar, AriaValueNow])
          = Parsed (Finite v)
      \<longrightarrow> ((\<exists>n s'. steppingBody w t c p s = Ended (Broke n s')) \<longleftrightarrow> v \<noteq> 0 \<and> p = Finite v)
          \<and> (\<forall>p' s'. steppingBody w t c p s = Again p' s' \<longrightarrow> p' = Finite v))"
proof -
  have zero: "applyForJob (progressWorld [0]) 0 None newService =
     Some (ZeroProgress,
       \<lparr>appliedJobs = [\<lparr>title = ''API Dev'', company = ''Acme'', appliedSuccessfully = False\<rparr>],
        calls = [ClickJob 0, WaitForSelector Details, EvaluateDetails, Click JobApply,
                 WaitForSelector JobApllyButton, Click JobApllyButton,
                 WaitForSelector JobApplyPorcentBar, AriaValueNow,
                 WriteFile [\<lparr>title = ''API Dev'', company = ''Acme'', appliedSuccessfully = False\<rparr>],
                 Detached [WaitForSelector JobApplyClose, Click JobApplyClose,
                           WaitForSelector ConfirmCancelApplyButton,
                           Click ConfirmCancelApplyButton]]\<rparr>)"
    by code_simp
  have complete: "applyForJob (progressWorld [10, 40, 70, 100]) 0 None newService =
     Some (Completed,
       \<lparr>appliedJobs = [\<lparr>title = ''API Dev'', company = ''Acme'', appliedSuccessfully = True\<rparr>],
        calls = [ClickJob 0, WaitForSelector Details, EvaluateDetails, Click JobApply,
                 WaitForSelector JobApllyButton, Click JobApllyButton,
                 WaitForSelector JobApplyPorcentBar, AriaValueNow,
                 WaitForSelector JobsResumeItem, Click JobsResumeItemButton, Click JobApllyButton,
                 WaitForSelector JobApplyPorcentBar, AriaValueNow,
                 WaitForSelector JobApllyButton, Click JobApllyButton,
                 WaitForSelector JobApplyPorcentBar, AriaValueNow,
                 WaitForSelector JobApllyButton, Click JobApllyButton,
                 WaitForSelector JobApplyPorcentBar, AriaValueNow,
                 WaitForSelector JobApllyButton, Click JobApllyButton,
                 WriteFile [\<lparr>title = ''API Dev'', company = ''Acme'', appliedSuccessfully = True\<rparr>],
                 WaitForSelector JobApplyClose, Click JobApplyClose]\<rparr>)"
    by code_simp
  have stuck: "applyForJob (progressWorld [20, 55, 55]) 0 None newService =
     Some (Stuck,
       \<lparr>appliedJobs = [\<lparr>title = ''API Dev'', company = ''Acme'', appliedSuccessfully = False\<rparr>],
        calls = [ClickJob 0, WaitForSelector Details, EvaluateDetails, Click JobApply,
                 WaitForSelector JobApllyButton, Click JobApllyButton,
                 WaitForSelector JobApplyPorcentBar, AriaValueNow,
                 WaitForSelector JobsResumeItem, Click JobsResumeItemButton, Click JobApllyButton,
                 WaitForSelector JobApplyPorcentBar, AriaValueNow,
                 WaitForSelector JobApllyButton, Click JobApllyButton,
                 WaitForSelector JobApplyPorcentBar, AriaValueNow,
                 WriteFile [\<lparr>title = ''API Dev'', company = ''Acme'', appliedSuccessfully = False\<rparr>],
                 WaitForSelector JobApplyClose, Click JobApplyClose,
                 WaitForSelector ConfirmCancelApplyButton, Click ConfirmCancelApplyButton]\<rparr>)"
    by code_simp
  have pass: "((\<exists>n s'. steppingBody w t c p s = Ended (Broke n s')) \<longleftrightarrow> v \<noteq> 0 \<and> p = Finite v)
          \<and> (\<forall>p' s'. steppingBody w t c p s = Again p' s' \<longrightarrow> p' = Finite v)"
    if "\<forall>cs. resolves w cs"
      and "ariaValueNow w (calls s @ [WaitForSelector JobApplyPorcentBar, AriaValueNow])
             = Parsed (Finite v)"
    using that
    by (cases p)
       (auto simp: steppingBody_def advance_def await_def emit_def closeApply_def
                   closeApplyCalls_def writeAppliedJobs_def Let_def)
  from zero complete stuck pass show ?thesis by blast
qed

theorem progress_monitoring_witness:
  "(\<forall>cs. resolves (progressWorld [20, 55, 55]) cs)
   \<and> ariaValueNow (progressWorld [20, 55, 55])
        (calls \<lparr>appliedJobs = [], calls = [AriaValueNow, AriaValueNow]\<rparr>
           @ [WaitForSelector JobApplyPorcentBar, AriaValueNow]) = Parsed (Finite 55)
   \<and> (\<exists>n s'. steppingBody (progressWorld [20, 55, 55]) ''API Dev'' ''Acme'' (Finite 55)
                 \<lparr>appliedJobs = [], calls = [AriaValueNow, AriaValueNow]\<rparr> = Ended (Broke n s'))
   \<and> \<not> (\<exists>n s'. steppingBody (progressWorld [20, 55, 55]) ''API Dev'' ''Acme'' (Finite 0)
                 \<lparr>appliedJobs = [], calls = [AriaValueNow, AriaValueNow]\<rparr> = Ended (Broke n s'))"
proof -
  have r: "\<forall>cs. resolves (progressWorld [20, 55, 55]) cs"
    by (simp add: progressWorld_def)
  have v: "ariaValueNow (progressWorld [20, 55, 55])
        (calls \<lparr>appliedJobs = [], calls = [AriaValueNow, AriaValueNow]\<rparr>
           @ [WaitForSelector JobApplyPorcentBar, AriaValueNow]) = Parsed (Finite 55)"
    by (simp add: progressWorld_def readingAt_def)
  from r v
    progress_monitoring [of "progressWorld [20, 55, 55]"
      "\<lparr>appliedJobs = [], calls = [AriaValueNow, AriaValueNow]\<rparr>" 55 "''API Dev''" "''Acme''"
      "Finite 55"]
    progress_monitoring [of "progressWorld [20, 55, 55]"
      "\<lparr>appliedJobs = [], calls = [AriaValueNow, AriaValueNow]\<rparr>" 55 "''API Dev''" "''Acme''"
      "Finite 0"]
  show ?thesis by simp
qed

section \<open>Screening\<close>

lemma truthy_missing: "truthy x \<longleftrightarrow> \<not> missing x"
  by (cases x) (auto simp: missing_def)

lemma find_ledger:
  "(length ledger > 0 \<and> find (\<lambda>a. title a = t \<and> company a = c) ledger \<noteq> None)
     \<longleftrightarrow> (\<exists>a \<in> set ledger. title a = t \<and> company a = c)"
  by (auto simp: find_None_iff)

text \<open>
  Where the lowering works letter by letter, an entry occurs in the description exactly
  when some stretch of the description equals it up to the lowering of each letter.
\<close>

lemma occursIn_letterwise:
  "occursIn (map f) k d \<longleftrightarrow> (\<exists>ps seg ss. d = ps @ seg @ ss \<and> map f seg = map f k)"
proof
  assume "occursIn (map f) k d"
  then obtain ps' ss' where "map f d = ps' @ map f k @ ss'"
    by (auto simp: occursIn_def sublist_def)
  then have "\<exists>ps rest. d = ps @ rest \<and> ps' = map f ps \<and> map f k @ ss' = map f rest"
    by (simp only: map_eq_append_conv)
  then obtain ps rest where d: "d = ps @ rest" and r: "map f rest = map f k @ ss'"
    by auto
  from r have "\<exists>seg ss. rest = seg @ ss \<and> map f k = map f seg \<and> ss' = map f ss"
    by (simp only: map_eq_append_conv)
  then obtain seg ss where "rest = seg @ ss" "map f seg = map f k"
    by auto
  with d show "\<exists>ps seg ss. d = ps @ seg @ ss \<and> map f seg = map f k" by blast
next
  assume "\<exists>ps seg ss. d = ps @ seg @ ss \<and> map f seg = map f k"
  then obtain ps seg ss where "d = ps @ seg @ ss" "map f seg = map f k" by blast
  then have "map f d = map f ps @ map f k @ map f ss" by simp
  then show "occursIn (map f) k d"
    by (auto simp: occursIn_def sublist_def)
qed

text \<open>
  Claim C4, as stated: the keyword rule skips exactly when descriptionKeywords is a
  non-empty list none of whose entries occurs in the description. It fails for the empty
  list: \<open>some\<close> is false on it, so the listing is skipped, where the claim accepts it.
  No string is lowered at this input, whatever the host.
\<close>

theorem keyword_rule_counterexample:
  "screen lowerAscii listing [] (Some noKeywords) = Skip KeywordMismatch
   \<and> shouldApply listing [] (Some noKeywords)
       (keywordMismatch_spec lowerAscii listing (Some noKeywords))
       = Accept"
  by code_simp

text \<open>
  Claim C4, amended. Whatever the builtin toLocaleLowerCase of the host does (\<open>lower\<close>):
  the four rules are tried in the order incomplete-details, already-applied, blacklisted,
  keyword-mismatch, the first that matches wins, and the listing is accepted when none
  does; the keyword rule skips exactly when descriptionKeywords is given (empty or not)
  and none of its entries, lowered by toLocaleLowerCase, is a substring of the description
  lowered by toLocaleLowerCase. Unless the list is given and empty, this is the rule of
  the claim with that reading of case-insensitive. Where toLocaleLowerCase works letter
  by letter, an entry passes exactly when a stretch of the description equals it up to
  the lowering of each letter.
\<close>

theorem screening_order:
  "screen lower d ledger opts = shouldApply d ledger opts (keywordMismatch_given lower d opts)
   \<and> (keywordsOf opts \<noteq> Some []
      \<longrightarrow> screen lower d ledger opts
            = shouldApply d ledger opts (keywordMismatch_spec lower d opts))
   \<and> (lower = map f
      \<longrightarrow> (keywordMismatch_given lower d opts \<longleftrightarrow>
             (\<exists>ks. keywordsOf opts = Some ks \<and>
               (\<forall>k \<in> set ks. \<nexists>ps seg ss. str (detailsDescription d) = ps @ seg @ ss
                                              \<and> map f seg = map f k))))"
proof -
  have given: "screen lower d ledger opts
                 = shouldApply d ledger opts (keywordMismatch_given lower d opts)"
    unfolding screen_def shouldApply_def find_ledger
    by (auto simp: truthy_missing incompleteDetails_def inLedger_def blacklistOf_def
          keywordsOf_def keywordMismatch_given_def noneOccurs_def occursIn_def
          includes_str_def list_ex_iff image_iff
        split: option.splits)
  have same: "keywordMismatch_spec lower d opts = keywordMismatch_given lower d opts"
    if "keywordsOf opts \<noteq> Some []"
    using that
    by (auto simp: keywordMismatch_spec_def keywordMismatch_given_def split: option.splits)
  have letters: "keywordMismatch_given lower d opts \<longleftrightarrow>
             (\<exists>ks. keywordsOf opts = Some ks \<and>
               (\<forall>k \<in> set ks. \<nexists>ps seg ss. str (detailsDescription d) = ps @ seg @ ss
                                              \<and> map f seg = map f k))"
    if "lower = map f"
    unfolding that keywordMismatch_given_def noneOccurs_def occursIn_letterwise
    by (cases "keywordsOf opts") auto
  from given same letters show ?thesis by simp
qed

theorem screening_order_witness:
  "keywordsOf (Some nodeAws) \<noteq> Some []
   \<and> lowerAscii = map lowerChar
   \<and> shouldApply reactListing [] (Some nodeAws)
       (keywordMismatch_spec lowerAscii reactListing (Some nodeAws))
       = Skip KeywordMismatch
   \<and> screen lowerAscii reactListing [] (Some nodeAws) = Skip KeywordMismatch
   \<and> shouldApply nodeListing [] (Some nodeAws)
       (keywordMismatch_spec lowerAscii nodeListing (Some nodeAws))
       = Accept
   \<and> screen lowerAscii nodeListing [] (Some nodeAws) = Accept
   \<and> (\<nexists>ps seg ss. ''Seeking a React developer'' = ps @ seg @ ss
                      \<and> map lowerChar seg = map lowerChar ''Node'')
   \<and> (\<nexists>ps seg ss. ''Seeking a React developer'' = ps @ seg @ ss
                      \<and> map lowerChar seg = map lowerChar ''AWS'')"
proof -
  have k: "keywordsOf (Some nodeAws) \<noteq> Some []"
    by (simp add: keywordsOf_def nodeAws_def)
  have l: "lowerAscii = map lowerChar"
    by (rule ext) (simp add: lowerAscii_def)
  have r: "shouldApply reactListing [] (Some nodeAws)
             (keywordMismatch_spec lowerAscii reactListing (Some nodeAws)) = Skip KeywordMismatch"
    by code_simp
  have n: "shouldApply nodeListing [] (Some nodeAws)
             (keywordMismatch_spec lowerAscii nodeListing (Some nodeAws)) = Accept"
    by code_simp
  have g: "keywordMismatch_given lowerAscii reactListing (Some nodeAws)"
    by code_simp
  note so = screening_order [of lowerAscii reactListing "[]" "Some nodeAws" lowerChar]
  have a: "screen lowerAscii reactListing [] (Some nodeAws)
             = shouldApply reactListing [] (Some nodeAws)
                 (keywordMismatch_spec lowerAscii reactListing (Some nodeAws))"
    using k so by blast
  have b: "screen lowerAscii nodeListing [] (Some nodeAws)
             = shouldApply nodeListing [] (Some nodeAws)
                 (keywordMismatch_spec lowerAscii nodeListing (Some nodeAws))"
    using k screening_order [of lowerAscii nodeListing "[]" "Some nodeAws"] by blast
  have c: "\<exists>ks. keywordsOf (Some nodeAws) = Some ks \<and>
         (\<forall>k \<in> set ks. \<nexists>ps seg ss. str (detailsDescription reactListing) = ps @ seg @ ss
                                        \<and> map lowerChar seg = map lowerChar k)"
    using l g so by blast
  have e: "(\<nexists>ps seg ss. ''Seeking a React developer'' = ps @ seg @ ss
                      \<and> map lowerChar seg = map lowerChar ''Node'')
           \<and> (\<nexists>ps seg ss. ''Seeking a React developer'' = ps @ seg @ ss
                      \<and> map lowerChar seg = map lowerChar ''AWS'')"
    using c by (simp add: keywordsOf_def nodeAws_def reactListing_def)
  from k l r n a b e show ?thesis by simp
qed

text \<open>
  Claim C5, as stated: a listing whose title and company are those of a record of the
  ledger is skipped as already applied whatever its other fields. It fails when the
  description is empty: the check of the details comes first, and the listing is skipped
  as incomplete.
\<close>

theorem dedup_counterexample:
  "screen lowerAscii emptyDescription
     [\<lparr>title = ''API Dev'', company = ''Acme'', appliedSuccessfully = True\<rparr>] None
     = Skip IncompleteDetails
   \<and> screen lowerAscii emptyDescription
       [\<lparr>title = ''API Dev'', company = ''Acme'', appliedSuccessfully = True\<rparr>] None
     \<noteq> Skip AlreadyApplied"
  by code_simp

text \<open>
  Claim C5, amended: a listing whose title, company and description are all present is
  skipped as already applied exactly when some record of the ledger has the same title
  and the same company, as strings, whatever the options, the description and the
  record's appliedSuccessfully. When applyForJob meets such a listing (its click and the
  loading of its details resolving), it returns with the ledger as it was and no call
  other than these three: nothing is written.
\<close>

theorem dedup_skip:
  assumes "truthy (detailsTitle d)" "truthy (detailsCompany d)" "truthy (detailsDescription d)"
  shows "(screen lower d ledger opts = Skip AlreadyApplied \<longleftrightarrow>
           (\<exists>a \<in> set ledger. title a = str (detailsTitle d) \<and> company a = str (detailsCompany d)))
     \<and> (resolves w (calls s @ [ClickJob job])
        \<and> resolves w (calls s @ [ClickJob job, WaitForSelector Details])
        \<and> resolves w (calls s @ [ClickJob job, WaitForSelector Details, EvaluateDetails])
        \<and> extracted w (calls s @ [ClickJob job, WaitForSelector Details, EvaluateDetails]) = Some d
        \<and> (\<exists>a \<in> set (appliedJobs s).
               title a = str (detailsTitle d) \<and> company a = str (detailsCompany d))
        \<longrightarrow> applyForJob w job opts s =
              Some (Skipped AlreadyApplied,
                    s\<lparr>calls := calls s @ [ClickJob job, WaitForSelector Details, EvaluateDetails]\<rparr>))"
proof -
  have iff: "screen lower d ledger opts = Skip AlreadyApplied \<longleftrightarrow>
           (\<exists>a \<in> set ledger. title a = str (detailsTitle d) \<and> company a = str (detailsCompany d))"
    for ledger lower
    using assms unfolding screen_def find_ledger by auto
  show ?thesis
    using iff [of "toLocaleLowerCase w" "appliedJobs s"] iff [of lower ledger]
    by (auto simp: applyForJob_def loadJobDetails_def await_def emit_def Let_def)
qed

theorem dedup_skip_witness:
  "truthy (detailsTitle listing) \<and> truthy (detailsCompany listing)
   \<and> truthy (detailsDescription listing)
   \<and> screen lowerAscii listing
        [\<lparr>title = ''API Dev'', company = ''Acme'', appliedSuccessfully = False\<rparr>]
        (Some nodeAws) = Skip AlreadyApplied
   \<and> screen lowerAscii listing
        [\<lparr>title = ''api dev'', company = ''Acme'', appliedSuccessfully = True\<rparr>,
         \<lparr>title = ''API Dev'', company = ''Acme '', appliedSuccessfully = True\<rparr>]
        (Some nodeAws) \<noteq> Skip AlreadyApplied
   \<and> applyForJob (progressWorld [10, 100]) 0 (Some nodeAws)
        \<lparr>appliedJobs = [\<lparr>title = ''API Dev'', company = ''Acme'', appliedSuccessfully = False\<rparr>],
         calls = [ReadFile]\<rparr>
       = Some (Skipped AlreadyApplied,
           \<lparr>appliedJobs = [\<lparr>title = ''API Dev'', company = ''Acme'', appliedSuccessfully = False\<rparr>],
            calls = [ReadFile, ClickJob 0, WaitForSelector Details, EvaluateDetails]\<rparr>)"
proof -
  have t: "truthy (detailsTitle listing)" "truthy (detailsCompany listing)"
    "truthy (detailsDescription listing)"
    by (simp_all add: listing_def)
  from t
    dedup_skip [OF t,
      where ledger = "[\<lparr>title = ''API Dev'', company = ''Acme'', appliedSuccessfully = False\<rparr>]"
        and opts = "Some nodeAws" and w = "progressWorld [10, 100]" and job = 0
        and lower = lowerAscii
        and s = "\<lparr>appliedJobs =
                     [\<lparr>title = ''API Dev'', company = ''Acme'', appliedSuccessfully = False\<rparr>],
                   calls = [ReadFile]\<rparr>"]
    dedup_skip [OF t,
      where ledger = "[\<lparr>title = ''api dev'', company = ''Acme'', appliedSuccessfully = True\<rparr>,
                       \<lparr>title = ''API Dev'', company = ''Acme '', appliedSuccessfully = True\<rparr>]"
        and opts = "Some nodeAws" and lower = lowerAscii]
  show ?thesis
    by (simp add: listing_def progressWorld_def)
qed

section \<open>The wizard without a resume\<close>

text \<open>
  Claim C1, at a failing input. The first read is 10, waiting for the resume picker
  rejects, and the next reads are 10, 60 and 100. The catch block of lines 316-325 writes
  the record with appliedSuccessfully = False and calls closeApply(true), but does not
  return: the loop is entered (the calls that follow are its reads and clicks), steps to
  100, and a second record, with appliedSuccessfully = True, is written for the same
  listing.
\<close>

theorem no_resume_enters_loop:
  "applyForJob (noResumeWorld [10, 10, 60, 100]) 0 None newService =
     Some (Completed,
       \<lparr>appliedJobs =
          [\<lparr>title = ''API Dev'', company = ''Acme'', appliedSuccessfully = False\<rparr>,
           \<lparr>title = ''API Dev'', company = ''Acme'', appliedSuccessfully = True\<rparr>],
        calls = [ClickJob 0, WaitForSelector Details, EvaluateDetails, Click JobApply,
                 WaitForSelector JobApllyButton, Click JobApllyButton,
                 WaitForSelector JobApplyPorcentBar, AriaValueNow,
                 WaitForSelector JobsResumeItem,
                 WriteFile [\<lparr>title = ''API Dev'', company = ''Acme'', appliedSuccessfully = False\<rparr>],
                 Detached [WaitForSelector JobApplyClose, Click JobApplyClose,
                           WaitForSelector ConfirmCancelApplyButton,
                           Click ConfirmCancelApplyButton],
                 WaitForSelector JobApplyPorcentBar, AriaValueNow,
                 WaitForSelector JobApllyButton, Click JobApllyButton,
                 WaitForSelector JobApplyPorcentBar, AriaValueNow,
                 WaitForSelector JobApllyButton, Click JobApllyButton,
                 WaitForSelector JobApplyPorcentBar, AriaValueNow,
                 WaitForSelector JobApllyButton, Click JobApllyButton,
                 WriteFile [\<lparr>title = ''API Dev'', company = ''Acme'', appliedSuccessfully = False\<rparr>,
                            \<lparr>title = ''API Dev'', company = ''Acme'', appliedSuccessfully = True\<rparr>],
                 WaitForSelector JobApplyClose, Click JobApplyClose]\<rparr>)"
  by code_simp

text \<open>
  Claim C2, at a failing input. The first read is 10, waiting for the resume picker
  rejects, and the loop reads 40 twice. One call of applyForJob appends two records: the
  one of the catch block of lines 316-325, and the one of the stuck check of line 346.
\<close>

theorem no_resume_two_records:
  "map_option (\<lambda>(out, s). (out, appliedJobs s, length (appliedJobs s)))
     (applyForJob (noResumeWorld [10, 40, 40]) 0 None newService) =
     Some (Stuck,
           [\<lparr>title = ''API Dev'', company = ''Acme'', appliedSuccessfully = False\<rparr>,
            \<lparr>title = ''API Dev'', company = ''Acme'', appliedSuccessfully = False\<rparr>],
           2)"
  by code_simp

section \<open>Paging and the queries\<close>

text \<open>
  Claim C6, at a failing input. Two queries, pages without listings, and a next-page
  button shown once. After the button is clicked and the container awaited, the page
  loop calls getJobs again, which builds the URL of every query and navigates to it
  again: the first query is requested a second time after the pages of the second, and
  no page reached by the button is read before a new navigation.
\<close>

theorem paging_renavigates:
  "init (pagingWorld 1) [nodeQuery, awsQuery] newService =
     Some (InitDone 2
       \<lparr>appliedJobs = [],
        calls =
          [ReadFile,
           Goto [(''keywords'', ''Node'')],
           WaitForSelector Container, QuerySelector Container, ScrollToEnd,
           QuerySelectorAll Jobs,
           Goto [(''keywords'', ''AWS''), (''location'', ''Toronto''), (''sortBy'', ''DD''),
                 (''f_WT'', ''2,3''), (''f_AL'', ''true'')],
           WaitForSelector Container, QuerySelector Container, ScrollToEnd,
           QuerySelectorAll Jobs,
           QuerySelector PaginationNextBtn, ClickHandle PaginationNextBtn,
           WaitForSelector Container,
           Goto [(''keywords'', ''Node'')],
           WaitForSelector Container, QuerySelector Container, ScrollToEnd,
           QuerySelectorAll Jobs,
           Goto [(''keywords'', ''AWS''), (''location'', ''Toronto''), (''sortBy'', ''DD''),
                 (''f_WT'', ''2,3''), (''f_AL'', ''true'')],
           WaitForSelector Container, QuerySelector Container, ScrollToEnd,
           QuerySelectorAll Jobs,
           QuerySelector PaginationNextBtn]\<rparr>)"
  by code_simp

section \<open>The loop without end\<close>

text \<open>The loop returns exactly what some number of passes ends with.\<close>

lemma stepping_passes:
  assumes "stepping w t c p s = Some e"
  shows "\<exists>n. passes n w t c p s = Ended e"
proof (rule stepping.raw_induct
         [rotated, OF assms, where P = "\<lambda>w t c p s e. \<exists>n. passes n w t c p s = Ended e"])
  fix f w t c p s e
  assume IH: "\<And>w t c p s e. f w t c p s = Some e \<Longrightarrow> \<exists>n. passes n w t c p s = Ended e"
    and step: "(case steppingBody w t c p s of
                  Again p' s' \<Rightarrow> f w t c p' s' | Ended e' \<Rightarrow> Some e') = Some e"
  show "\<exists>n. passes n w t c p s = Ended e"
  proof (cases "steppingBody w t c p s")
    case (Again p' s')
    with step have "f w t c p' s' = Some e" by simp
    then obtain n where "passes n w t c p' s' = Ended e" using IH by blast
    with Again have "passes (Suc n) w t c p s = Ended e" by simp
    then show ?thesis ..
  next
    case (Ended e')
    with step have "passes (Suc 0) w t c p s = Ended e" by simp
    then show ?thesis ..
  qed
qed

lemma passes_stepping:
  "passes n w t c p s = Ended e \<Longrightarrow> stepping w t c p s = Some e"
proof (induction n arbitrary: p s)
  case 0
  then show ?case by simp
next
  case (Suc n)
  then show ?case
    by (cases "steppingBody w t c p s") (auto simp: stepping.simps [of w t c p s])
qed












section \<open>One record when a resume is selected\<close>

text \<open>
  When the three calls selecting a resume resolve, one call of the wizard appends no
  record when the apply control is unavailable or the loop is left at a value other than
  100, and exactly one record when it ends with zero progress, stuck or completed.
\<close>

lemma appliedJobs_emit [simp]: "appliedJobs (emit e s) = appliedJobs s"
  by (simp add: emit_def)

lemma appliedJobs_awaitAll: "appliedJobs (snd (awaitAll w es s)) = appliedJobs s"
  by (induction es arbitrary: s) (auto simp: await_def Let_def split: prod.splits)

lemma appliedJobs_awaited:
  "awaitAll w es s = (ok, s') \<Longrightarrow> appliedJobs s' = appliedJobs s"
  using appliedJobs_awaitAll [of w es s] by simp

lemma below_100_not_100: "lessThan_num n (Finite 100) \<Longrightarrow> \<not> strictEq n (Finite 100)"
  by (cases n) auto

lemma appliedJobs_write [simp]: "appliedJobs (writeAppliedJobs j s) = appliedJobs s @ [j]"
  by (simp add: writeAppliedJobs_def Let_def)

lemma steppingBody_ledger:
  assumes "lessThan_num p (Finite 100)"
  shows "loopLedger (appliedJobs s) \<lparr>title = t, company = c, appliedSuccessfully = False\<rparr>
           (steppingBody w t c p s)"
  using assms appliedJobs_awaitAll [of w]
  by (auto simp: steppingBody_def advance_def closeApply_def await_def Let_def
           split: prod.splits reading.splits)
     (metis appliedJobs_emit appliedJobs_write snd_conv)+

lemma passes_ledger:
  assumes "lessThan_num p (Finite 100)"
  shows "loopLedger (appliedJobs s) \<lparr>title = t, company = c, appliedSuccessfully = False\<rparr>
           (passes n w t c p s)"
  using assms
proof (induction n arbitrary: p s)
  case 0
  then show ?case by simp
next
  case (Suc n)
  note b = steppingBody_ledger [OF Suc.prems, of s t c w]
  show ?case
  proof (cases "steppingBody w t c p s")
    case (Again p' s1)
    with b have "appliedJobs s1 = appliedJobs s" "lessThan_num p' (Finite 100)"
      by simp_all
    with Suc.IH [of p' s1] Again show ?thesis by simp
  next
    case (Ended e)
    with b show ?thesis by simp
  qed
qed

lemma stepping_ledger:
  assumes "stepping w t c p s = Some e" "lessThan_num p (Finite 100)"
  shows "loopLedger (appliedJobs s) \<lparr>title = t, company = c, appliedSuccessfully = False\<rparr>
           (Ended e)"
proof -
  from assms(1) obtain n where "passes n w t c p s = Ended e"
    using stepping_passes by blast
  with passes_ledger [OF assms(2), of s t c n w] show ?thesis by simp
qed

lemma wizard_one_record:
  assumes run: "wizard w t c s = Some (out, s')"
    and resume: "\<forall>cs. last cs \<in> {WaitForSelector JobsResumeItem, Click JobsResumeItemButton,
                                Click JobApllyButton} \<longrightarrow> resolves w cs"
  shows "(out = ApplyUnavailable \<or> out = LeftLoop \<longrightarrow> appliedJobs s' = appliedJobs s)
       \<and> (out = ZeroProgress \<or> out = Stuck \<longrightarrow>
            appliedJobs s' = appliedJobs s @ [\<lparr>title = t, company = c, appliedSuccessfully = False\<rparr>])
       \<and> (out = Completed \<longrightarrow>
            appliedJobs s' = appliedJobs s @ [\<lparr>title = t, company = c, appliedSuccessfully = True\<rparr>])"
proof -
  let ?s2 = "emit AriaValueNow (emit (WaitForSelector JobApplyPorcentBar)
               (emit (Click JobApllyButton) (emit (WaitForSelector JobApllyButton)
                 (emit (Click JobApply) s))))"
  let ?s3 = "emit (Click JobApllyButton) (emit (Click JobsResumeItemButton)
               (emit (WaitForSelector JobsResumeItem) ?s2))"
  have sel: "selectResume w t c ?s2 = ?s3"
    using resume by (simp add: selectResume_def await_def emit_def Let_def)
  have loop: "loopLedger (appliedJobs s)
                \<lparr>title = t, company = c, appliedSuccessfully = False\<rparr> (Ended e)"
    if "stepping w t c (Finite 0) ?s3 = Some e" for e
    using stepping_ledger [OF that] by simp
  have after: "(fst (afterLoop w t c e) = LeftLoop \<longrightarrow> appliedJobs (snd (afterLoop w t c e)) = appliedJobs s)
       \<and> (fst (afterLoop w t c e) = Stuck \<longrightarrow>
            appliedJobs (snd (afterLoop w t c e))
              = appliedJobs s @ [\<lparr>title = t, company = c, appliedSuccessfully = False\<rparr>])
       \<and> (fst (afterLoop w t c e) = Completed \<longrightarrow>
            appliedJobs (snd (afterLoop w t c e))
              = appliedJobs s @ [\<lparr>title = t, company = c, appliedSuccessfully = True\<rparr>])
       \<and> fst (afterLoop w t c e) \<noteq> ApplyUnavailable \<and> fst (afterLoop w t c e) \<noteq> ZeroProgress"
    if "stepping w t c (Finite 0) ?s3 = Some e" for e
    using loop [OF that]
    by (cases e; cases "closeApply w False
                 (writeAppliedJobs \<lparr>title = t, company = c, appliedSuccessfully = True\<rparr>
                    (endService e))")
       (auto simp: afterLoop_def Let_def closeApply_def split: if_splits
             dest: appliedJobs_awaited below_100_not_100)
  show ?thesis
    using run sel after
    by (auto simp: wizard_def await_def Let_def closeApplyDetached_def
             split: if_splits option.splits)
qed

section \<open>Properties kept by every step\<close>

text \<open>
  A property of the service that is kept by every call of the kinds above and by
  writeAppliedJobs is kept by the loop, by applyForJob, and by getJobs, whenever they
  return.
\<close>

lemma steppingBody_keeps:
  assumes emitP: "\<And>e s. wizardEvent e \<Longrightarrow> P s \<Longrightarrow> P (emit e s)"
    and writeP: "\<And>j s. P s \<Longrightarrow> P (writeAppliedJobs j s)"
    and "P s"
  shows "P (iterationService (steppingBody w t c p s))"
  using assms(3)
  by (auto simp: steppingBody_def advance_def closeApply_def closeApplyCalls_def await_def
                 Let_def
           split: reading.splits
           intro!: emitP writeP)

lemma passes_keeps:
  assumes emitP: "\<And>e s. wizardEvent e \<Longrightarrow> P s \<Longrightarrow> P (emit e s)"
    and writeP: "\<And>j s. P s \<Longrightarrow> P (writeAppliedJobs j s)"
    and "P s"
  shows "P (iterationService (passes n w t c p s))"
  using assms(3)
proof (induction n arbitrary: p s)
  case 0
  then show ?case by simp
next
  case (Suc n)
  have "P (iterationService (steppingBody w t c p s))"
    using emitP writeP Suc.prems by (rule steppingBody_keeps)
  with Suc.IH show ?case
    by (cases "steppingBody w t c p s") auto
qed

lemma stepping_keeps:
  assumes emitP: "\<And>e s. wizardEvent e \<Longrightarrow> P s \<Longrightarrow> P (emit e s)"
    and writeP: "\<And>j s. P s \<Longrightarrow> P (writeAppliedJobs j s)"
    and "P s" and "stepping w t c p s = Some e"
  shows "P (endService e)"
proof -
  from assms(4) obtain n where "passes n w t c p s = Ended e"
    using stepping_passes by blast
  with passes_keeps [OF emitP writeP assms(3), of n w t c p] show ?thesis by simp
qed

lemma applyForJob_keeps:
  assumes emitP: "\<And>e s. wizardEvent e \<Longrightarrow> P s \<Longrightarrow> P (emit e s)"
    and writeP: "\<And>j s. P s \<Longrightarrow> P (writeAppliedJobs j s)"
    and "P s" and "applyForJob w job opts s = Some (out, s')"
  shows "P s'"
proof -
  have sel: "P (selectResume w t c s1)" if "P s1" for t c s1
    using that
    by (auto simp: selectResume_def closeApplyDetached_def await_def Let_def
             intro!: emitP writeP)
  have aft: "P (snd (afterLoop w t c e))" if "P (endService e)" for t c e
    using that
    by (cases e)
       (auto simp: afterLoop_def closeApply_def closeApplyCalls_def await_def Let_def
             intro!: emitP writeP)
  have wiz: "P s2" if "P s1" "wizard w t c s1 = Some (out, s2)" for t c s1 s2 out
  proof -
    let ?s = "emit AriaValueNow (emit (WaitForSelector JobApplyPorcentBar)
               (emit (Click JobApllyButton) (emit (WaitForSelector JobApllyButton)
                 (emit (Click JobApply) s1))))"
    have p: "P ?s" using that(1) by (auto intro!: emitP)
    have st: "P (snd (afterLoop w t c e))"
      if "stepping w t c (Finite 0) (selectResume w t c ?s) = Some e" for e
      using stepping_keeps [OF emitP writeP sel [OF p] that] by (rule aft)
    show ?thesis
      using that p st
      by (auto simp: wizard_def await_def Let_def closeApplyDetached_def
               split: if_splits option.splits
               intro!: emitP writeP)
  qed
  have p3: "P (emit EvaluateDetails (emit (WaitForSelector Details) (emit (ClickJob job) s)))"
    using assms(3) by (auto intro!: emitP)
  show ?thesis
    using assms(3,4)
    by (auto simp: applyForJob_def loadJobDetails_def await_def Let_def
             split: if_splits option.splits decision.splits
             intro!: emitP dest: wiz [OF p3])
qed

lemma applyAll_keeps:
  assumes emitP: "\<And>e s. wizardEvent e \<Longrightarrow> P s \<Longrightarrow> P (emit e s)"
    and writeP: "\<And>j s. P s \<Longrightarrow> P (writeAppliedJobs j s)"
    and "P s" and "applyAll w opts js s = Some s'"
  shows "P s'"
  using assms(3,4)
proof (induction js arbitrary: s)
  case Nil
  then show ?case by simp
next
  case (Cons job js)
  from Cons.prems(2) obtain out s1 where
    a: "applyForJob w job (Some opts) s = Some (out, s1)"
    and r: "applyAll w opts js (if out = Threw then closeApplyDetached True s1 else s1) = Some s'"
    by (auto split: option.splits)
  have "P s1" using emitP writeP Cons.prems(1) a by (rule applyForJob_keeps)
  then have "P (if out = Threw then closeApplyDetached True s1 else s1)"
    by (auto simp: closeApplyDetached_def intro!: emitP)
  then show ?case using r by (rule Cons.IH)
qed

lemma runQuery_keeps:
  assumes emitP: "\<And>e s. wizardEvent e \<or> queryEvent e \<Longrightarrow> P s \<Longrightarrow> P (emit e s)"
    and writeP: "\<And>j s. P s \<Longrightarrow> P (writeAppliedJobs j s)"
    and "P s" and "runQuery w q s = Some (r, s')"
  shows "P s'"
proof -
  have emitW: "P (emit e s)" if "wizardEvent e" "P s" for e s
    using that emitP by blast
  have all: "P s2" if "P s1" "applyAll w opts js s1 = Some s2" for opts js s1 s2
    using emitW writeP that by (rule applyAll_keeps)
  show ?thesis
    using assms(3,4)
    by (auto simp: runQuery_def await_def Let_def
             split: if_splits option.splits prod.splits
             intro!: emitP dest!: all [rotated])
qed

lemma getJobs_keeps:
  assumes emitP: "\<And>e s. wizardEvent e \<or> queryEvent e \<Longrightarrow> P s \<Longrightarrow> P (emit e s)"
    and writeP: "\<And>j s. P s \<Longrightarrow> P (writeAppliedJobs j s)"
    and "P s" and "getJobs w queries s = Some s'"
  shows "P s'"
  using assms(3,4)
proof (induction queries arbitrary: s)
  case Nil
  then show ?case by simp
next
  case (Cons q qs)
  from Cons.prems(2) obtain r s1 where
    a: "runQuery w q s = Some (r, s1)"
    and b: "(r = Returns \<and> s' = s1) \<or> (r = Continues \<and> getJobs w qs s1 = Some s')"
    by (auto split: option.splits queryEnd.splits)
  have "P s1" using emitP writeP Cons.prems(1) a by (rule runQuery_keeps)
  with b Cons.IH show ?case by auto
qed

section \<open>The ledger\<close>

lemma payloads_append: "payloads (xs @ ys) = payloads xs @ payloads ys"
  by (simp add: payloads_def List.map_filter_def)

lemma payloads_single: "payloads [e] = (case payload e of None \<Rightarrow> [] | Some js \<Rightarrow> [js])"
  by (simp add: payloads_def List.map_filter_def split: option.splits)

lemma ledgerKept_emit:
  assumes "e \<noteq> ReadFile" "payload e = None" "ledgerKept stored before s"
  shows "ledgerKept stored before (emit e s)"
  using assms
  by (auto simp: ledgerKept_def emit_def payloads_append payloads_single)

lemma ledgerKept_write:
  assumes "ledgerKept stored before s"
  shows "ledgerKept stored before (writeAppliedJobs j s)"
proof -
  from assms obtain rest where
    p: "prefix stored (appliedJobs s)"
    and c: "calls s = before @ ReadFile # rest" "ReadFile \<notin> set rest"
    and w: "payloads rest = map (\<lambda>n. take n (appliedJobs s))
                          [Suc (length stored) ..< Suc (length (appliedJobs s))]"
    by (auto simp: ledgerKept_def)
  let ?a = "appliedJobs s" and ?a' = "appliedJobs s @ [j]"
  have le: "length stored \<le> length ?a" using p by (rule prefix_length_le)
  have "map (\<lambda>n. take n ?a') [Suc (length stored) ..< Suc (length ?a')]
        = map (\<lambda>n. take n ?a') [Suc (length stored) ..< Suc (length ?a)] @ [?a']"
    using le by simp
  also have "map (\<lambda>n. take n ?a') [Suc (length stored) ..< Suc (length ?a)]
        = map (\<lambda>n. take n ?a) [Suc (length stored) ..< Suc (length ?a)]"
    by (rule map_cong) auto
  finally have "payloads (rest @ [WriteFile ?a'])
        = map (\<lambda>n. take n ?a') [Suc (length stored) ..< Suc (length ?a')]"
    using w by (simp add: payloads_append payloads_single)
  moreover have "prefix stored ?a'" using p by (rule prefix_prefix)
  ultimately show ?thesis
    using c by (auto simp: ledgerKept_def writeAppliedJobs_def emit_def Let_def)
qed

lemma nextPage_keeps:
  assumes emitP: "\<And>e s. pagingEvent e \<Longrightarrow> P s \<Longrightarrow> P (emit e s)" and "P s"
  shows "P (pagingService (nextPage w page s))"
  using assms(2)
  by (auto simp: nextPage_def await_def Let_def intro!: emitP)

lemma pageLoop_keeps:
  assumes emitP: "\<And>e s. wizardEvent e \<or> queryEvent e \<or> pagingEvent e \<Longrightarrow> P s \<Longrightarrow> P (emit e s)"
    and writeP: "\<And>j s. P s \<Longrightarrow> P (writeAppliedJobs j s)"
    and "P s" and "pageLoop w queries page s = Some (page', s')"
  shows "P s'"
  using assms(3,4)
proof (induction w queries page s rule: pageLoop.induct)
  case (1 w queries page s)
  note run = "1.prems"(2) [unfolded pageLoop.simps [of w queries page s]]
  from run obtain s1 where g: "getJobs w queries s = Some s1"
    by (auto split: option.splits)
  have e1: "P (emit e s)" if "wizardEvent e \<or> queryEvent e" "P s" for e s
    using that emitP by blast
  have e2: "P (emit e s)" if "pagingEvent e" "P s" for e s
    using that emitP by blast
  have p1: "P s1" using e1 writeP "1.prems"(1) g by (rule getJobs_keeps)
  have p2: "P (pagingService (nextPage w page s1))"
    using e2 p1 by (rule nextPage_keeps)
  show ?case
  proof (cases "nextPage w page s1")
    case (Turned p2 s2)
    show ?thesis
    proof (cases "p2 < 5")
      case True
      with run g Turned have "pageLoop w queries p2 s2 = Some (page', s')"
        by simp
      moreover have "P s2" using p2 Turned by simp
      ultimately show ?thesis using "1.IH" [OF g Turned True] by blast
    next
      case False
      with run g Turned p2 show ?thesis by simp
    qed
  next
    case (NoButton p2 s2)
    with run g p2 show ?thesis by simp
  next
    case (Caught p2 s2)
    with run g p2 show ?thesis by simp
  qed
qed

lemma wizard_not_read: "wizardEvent e \<or> queryEvent e \<or> pagingEvent e \<Longrightarrow> e \<noteq> ReadFile \<and> payload e = None"
  by (cases e) auto

text \<open>
  Claim C8. In a run of init that returns: the file is read once, as the first call of
  the run, before any query is opened; the ledger at the end extends the ledger that was
  read (so it is no shorter, and every record read or appended stays where it was,
  unchanged); and the writes of the run are, in order, the ledger after each append, whole:
  the \<open>k\<close>-th write is the first \<open>length stored + k\<close> records of the final ledger.
\<close>

theorem ledger_append_only:
  assumes "init w queries s = Some (InitDone page s')"
  shows "\<exists>stored rest.
           storedJobs w = Some stored
         \<and> prefix stored (appliedJobs s')
         \<and> calls s' = calls s @ ReadFile # rest
         \<and> ReadFile \<notin> set rest
         \<and> payloads rest = map (\<lambda>n. take n (appliedJobs s'))
                              [Suc (length stored) ..< Suc (length (appliedJobs s'))]"
proof -
  from assms obtain stored where
    st: "storedJobs w = Some stored"
    and pl: "pageLoop w queries 1 ((emit ReadFile s)\<lparr>appliedJobs := stored\<rparr>) = Some (page, s')"
    by (auto simp: init_def Let_def split: option.splits)
  have k0: "ledgerKept stored (calls s) ((emit ReadFile s)\<lparr>appliedJobs := stored\<rparr>)"
    by (simp add: ledgerKept_def emit_def payloads_def List.map_filter_def)
  have "ledgerKept stored (calls s) s'"
    using _ _ k0 pl
  proof (rule pageLoop_keeps)
    show "ledgerKept stored (calls s) (emit e s1)"
      if "wizardEvent e \<or> queryEvent e \<or> pagingEvent e" "ledgerKept stored (calls s) s1" for e s1
      using wizard_not_read [OF that(1)] that(2) by (auto intro: ledgerKept_emit)
    show "ledgerKept stored (calls s) (writeAppliedJobs j s1)"
      if "ledgerKept stored (calls s) s1" for j s1
      using that by (rule ledgerKept_write)
  qed
  with st show ?thesis by (auto simp: ledgerKept_def)
qed


theorem ledger_append_only_witness:
  "\<exists>page s' stored rest.
      init ledgerWorld [nodeQuery] newService = Some (InitDone page s')
    \<and> storedJobs ledgerWorld = Some stored
    \<and> stored = [\<lparr>title = ''Backend Eng'', company = ''Toro'', appliedSuccessfully = False\<rparr>]
    \<and> appliedJobs s' = stored @ [\<lparr>title = ''API Dev'', company = ''Acme'', appliedSuccessfully = True\<rparr>]
    \<and> calls s' = ReadFile # rest \<and> ReadFile \<notin> set rest
    \<and> payloads rest = [appliedJobs s']"
proof -
  have "case init ledgerWorld [nodeQuery] newService of
          Some (InitDone page s') \<Rightarrow>
            appliedJobs s' =
              [\<lparr>title = ''Backend Eng'', company = ''Toro'', appliedSuccessfully = False\<rparr>,
               \<lparr>title = ''API Dev'', company = ''Acme'', appliedSuccessfully = True\<rparr>]
        | _ \<Rightarrow> False"
    by code_simp
  then obtain page s' where
    i: "init ledgerWorld [nodeQuery] newService = Some (InitDone page s')"
    and a: "appliedJobs s' =
              [\<lparr>title = ''Backend Eng'', company = ''Toro'', appliedSuccessfully = False\<rparr>,
               \<lparr>title = ''API Dev'', company = ''Acme'', appliedSuccessfully = True\<rparr>]"
    by (auto split: option.splits initEnd.splits)
  from ledger_append_only [OF i] obtain stored rest where
    k: "storedJobs ledgerWorld = Some stored"
      "calls s' = calls newService @ ReadFile # rest" "ReadFile \<notin> set rest"
      "payloads rest = map (\<lambda>n. take n (appliedJobs s'))
                              [Suc (length stored) ..< Suc (length (appliedJobs s'))]"
    by blast
  from k(1) have s: "stored = [\<lparr>title = ''Backend Eng'', company = ''Toro'', appliedSuccessfully = False\<rparr>]"
    by (simp add: ledgerWorld_def)
  from k(4) a s have "payloads rest = [appliedJobs s']" by simp
  with i k a s show ?thesis by (auto simp: newService_def)
qed

section \<open>The page loop\<close>

lemma getJobs_counts:
  assumes "getJobs w queries s = Some s'"
  shows "lookups (calls s') = lookups (calls s) \<and> clicks (calls s') = clicks (calls s)"
proof -
  let ?P = "\<lambda>s1. lookups (calls s1) = lookups (calls s) \<and> clicks (calls s1) = clicks (calls s)"
  have "?P s'"
    using _ _ _ assms
  proof (rule getJobs_keeps)
    show "?P (emit e s1)" if "wizardEvent e \<or> queryEvent e" "?P s1" for e s1
      using that by (cases e) (auto simp: emit_def lookups_def clicks_def)
    show "?P (writeAppliedJobs j s1)" if "?P s1" for j s1
      using that by (auto simp: writeAppliedJobs_def emit_def lookups_def clicks_def Let_def)
    show "?P s" by simp
  qed
  then show ?thesis .
qed

lemma nextPage_counts:
  "(case nextPage w page s of
      Turned p' s' \<Rightarrow> p' = page + 1 \<and> clicks (calls s') = clicks (calls s) + 1
                      \<and> lookups (calls s') = lookups (calls s) + 1
    | NoButton p' s' \<Rightarrow> p' = page \<and> clicks (calls s') = clicks (calls s)
                      \<and> lookups (calls s') = lookups (calls s) + 1
    | Caught p' s' \<Rightarrow> p' = page + (clicks (calls s') - clicks (calls s))
                      \<and> clicks (calls s') \<le> clicks (calls s) + 1
                      \<and> clicks (calls s) \<le> clicks (calls s')
                      \<and> lookups (calls s') = lookups (calls s) + 1)"
  by (auto simp: nextPage_def await_def emit_def lookups_def clicks_def Let_def)

lemma pageLoop_counts:
  assumes "pageLoop w queries page s = Some (page', s')"
  shows "page' = page + (clicks (calls s') - clicks (calls s))
       \<and> clicks (calls s) \<le> clicks (calls s')
       \<and> page' \<le> max 5 (page + 1)
       \<and> lookups (calls s) < lookups (calls s')
       \<and> lookups (calls s') + page \<le> lookups (calls s) + max 5 (page + 1)"
  using assms
proof (induction w queries page s rule: pageLoop.induct)
  case (1 w queries page s)
  note run = "1.prems" [unfolded pageLoop.simps [of w queries page s]]
  from run obtain s1 where g: "getJobs w queries s = Some s1"
    by (auto split: option.splits)
  note c1 = getJobs_counts [OF g]
  note n = nextPage_counts [where w = w and page = page and s = s1]
  show ?case
  proof (cases "nextPage w page s1")
    case (Turned p2 s2)
    show ?thesis
    proof (cases "p2 < 5")
      case True
      with run g Turned have "pageLoop w queries p2 s2 = Some (page', s')"
        by simp
      from "1.IH" [OF g Turned True this] n c1 Turned True show ?thesis
        by auto
    next
      case False
      with run g Turned n c1 show ?thesis by auto
    qed
  next
    case (NoButton p2 s2)
    with run g n c1 show ?thesis by auto
  next
    case (Caught p2 s2)
    with run g n c1 show ?thesis by auto
  qed
qed

lemma pageLoop_always:
  assumes "pageLoop w queries page s = Some (page', s')"
    and "\<forall>cs. resolves w cs" "\<forall>cs. present w cs" "page \<le> 4"
  shows "page' = 5 \<and> lookups (calls s') + page = lookups (calls s) + 5"
  using assms
proof (induction w queries page s rule: pageLoop.induct)
  case (1 w queries page s)
  note run = "1.prems"(1) [unfolded pageLoop.simps [of w queries page s]]
  from run obtain s1 where g: "getJobs w queries s = Some s1"
    by (auto split: option.splits)
  note c1 = getJobs_counts [OF g]
  let ?s2 = "emit (WaitForSelector Container) (emit (ClickHandle PaginationNextBtn)
               (emit (QuerySelector PaginationNextBtn) s1))"
  have t: "nextPage w page s1 = Turned (page + 1) ?s2"
    using "1.prems"(2,3) by (simp add: nextPage_def await_def Let_def)
  have l: "lookups (calls ?s2) = lookups (calls s1) + 1"
    by (simp add: emit_def lookups_def)
  show ?case
  proof (cases "page + 1 < 5")
    case True
    with run g t have "pageLoop w queries (page + 1) ?s2 = Some (page', s')"
      by simp
    from "1.IH" [OF g t True this "1.prems"(2,3)] True l c1 show ?thesis
      by auto
  next
    case False
    with run "1.prems"(4) g t l c1 show ?thesis by auto
  qed
qed

lemma applyAll_requests:
  assumes "applyAll w opts js s = Some s'"
  shows "requests url (calls s') = requests url (calls s)"
proof -
  let ?P = "\<lambda>s1. requests url (calls s1) = requests url (calls s)"
  have "?P s'"
    using _ _ _ assms
  proof (rule applyAll_keeps)
    show "?P (emit e s1)" if "wizardEvent e" "?P s1" for e s1
      using that by (cases e) (auto simp: emit_def requests_def)
    show "?P (writeAppliedJobs j s1)" if "?P s1" for j s1
      using that by (auto simp: writeAppliedJobs_def emit_def requests_def Let_def)
    show "?P s" by simp
  qed
  then show ?thesis .
qed

lemma runQuery_requests:
  assumes "runQuery w q s = Some (r, s')"
  shows "requests url (calls s') =
           requests url (calls s) + (if buildUrl (query q) (options q) = url then 1 else 0)"
  using assms
  by (auto simp: runQuery_def await_def emit_def requests_def Let_def
           split: if_splits option.splits prod.splits
           dest!: applyAll_requests [where url = url])

lemma getJobs_requests:
  assumes "getJobs w queries s = Some s'"
  shows "requests url (calls s') \<le> requests url (calls s) + asking url queries"
  using assms
proof (induction queries arbitrary: s)
  case Nil
  then show ?case by (simp add: asking_def)
next
  case (Cons q qs)
  from Cons.prems obtain r s1 where
    a: "runQuery w q s = Some (r, s1)"
    and b: "(r = Returns \<and> s' = s1) \<or> (r = Continues \<and> getJobs w qs s1 = Some s')"
    by (auto split: option.splits queryEnd.splits)
  note rq = runQuery_requests [OF a, of url]
  from b show ?case
  proof
    assume "r = Returns \<and> s' = s1"
    with rq show ?thesis by (auto simp: asking_def)
  next
    assume "r = Continues \<and> getJobs w qs s1 = Some s'"
    then have "requests url (calls s') \<le> requests url (calls s1) + asking url qs"
      using Cons.IH by blast
    with rq show ?thesis by (auto simp: asking_def)
  qed
qed

lemma pageLoop_requests:
  assumes "pageLoop w queries page s = Some (page', s')"
  shows "requests url (calls s') + asking url queries * lookups (calls s)
           \<le> requests url (calls s) + asking url queries * lookups (calls s')"
  using assms
proof (induction w queries page s rule: pageLoop.induct)
  case (1 w queries page s)
  note run = "1.prems" [unfolded pageLoop.simps [of w queries page s]]
  from run obtain s1 where g: "getJobs w queries s = Some s1"
    by (auto split: option.splits)
  note c1 = getJobs_counts [OF g] getJobs_requests [OF g, of url]
  have n: "requests url (calls (pagingService (nextPage w page s1))) = requests url (calls s1)
           \<and> lookups (calls (pagingService (nextPage w page s1))) = lookups (calls s1) + 1"
    by (auto simp: nextPage_def await_def emit_def requests_def lookups_def Let_def)
  show ?case
  proof (cases "nextPage w page s1")
    case (Turned p2 s2)
    show ?thesis
    proof (cases "p2 < 5")
      case True
      with run g Turned have "pageLoop w queries p2 s2 = Some (page', s')"
        by simp
      from "1.IH" [OF g Turned True this] n c1 Turned show ?thesis
        by (auto simp: algebra_simps)
    next
      case False
      with run g Turned n c1 show ?thesis by (auto simp: algebra_simps)
    qed
  next
    case (NoButton p2 s2)
    with run g n c1 show ?thesis by (auto simp: algebra_simps)
  next
    case (Caught p2 s2)
    with run g n c1 show ?thesis by (auto simp: algebra_simps)
  qed
qed

text \<open>
  Claim C7. In a run of init that returns, the page counter ends between 1 and 5 and is
  1 plus the number of clicks on the next-page control; the page loop makes at least one
  and at most four passes (one lookup of the control ends each pass), and a search URL is
  requested at most four times for each query that asks for it: at most four result pages
  are processed for a query, which is within the bound of 5. When every page shows the
  control and every call resolves, the counter ends at 5 after exactly four passes. A
  paging step leaves the counter as it is or adds one to it.
\<close>

theorem pagination_bound:
  assumes "init w queries s = Some (InitDone page s')"
  shows "1 \<le> page \<and> page \<le> 5
       \<and> page = 1 + (clicks (calls s') - clicks (calls s))
       \<and> lookups (calls s) < lookups (calls s')
       \<and> lookups (calls s') \<le> lookups (calls s) + 4
       \<and> requests url (calls s') \<le> requests url (calls s) + 4 * asking url queries
       \<and> ((\<forall>cs. resolves w cs) \<and> (\<forall>cs. present w cs)
            \<longrightarrow> page = 5 \<and> lookups (calls s') = lookups (calls s) + 4)
       \<and> (case nextPage w p s0 of
             Turned p' s1 \<Rightarrow> p' = p + 1
           | NoButton p' s1 \<Rightarrow> p' = p
           | Caught p' s1 \<Rightarrow> p \<le> p' \<and> p' \<le> p + 1)"
proof -
  from assms obtain stored where
    pl: "pageLoop w queries 1 ((emit ReadFile s)\<lparr>appliedJobs := stored\<rparr>) = Some (page, s')"
    by (auto simp: init_def Let_def split: option.splits)
  let ?s0 = "(emit ReadFile s)\<lparr>appliedJobs := stored\<rparr>"
  have c0: "clicks (calls ?s0) = clicks (calls s)" "lookups (calls ?s0) = lookups (calls s)"
    "requests url (calls ?s0) = requests url (calls s)"
    by (simp_all add: emit_def clicks_def lookups_def requests_def)
  have a: "1 \<le> page \<and> page \<le> 5
       \<and> page = 1 + (clicks (calls s') - clicks (calls s))
       \<and> lookups (calls s) < lookups (calls s')
       \<and> lookups (calls s') \<le> lookups (calls s) + 4"
    using pageLoop_counts [OF pl] c0 by auto
  have "asking url queries * lookups (calls s')
          \<le> asking url queries * (lookups (calls s) + 4)"
    using a by (intro mult_le_mono2) simp
  with pageLoop_requests [OF pl, of url] c0
  have q: "requests url (calls s') \<le> requests url (calls s) + 4 * asking url queries"
    by (simp add: algebra_simps)
  have b: "page = 5 \<and> lookups (calls s') = lookups (calls s) + 4"
    if "\<forall>cs. resolves w cs" "\<forall>cs. present w cs"
    using pageLoop_always [OF pl that] c0 by auto
  have c: "(case nextPage w p s0 of
             Turned p' s1 \<Rightarrow> p' = p + 1
           | NoButton p' s1 \<Rightarrow> p' = p
           | Caught p' s1 \<Rightarrow> p \<le> p' \<and> p' \<le> p + 1)"
    by (auto simp: nextPage_def await_def Let_def)
  from a q b c show ?thesis by blast
qed


theorem pagination_bound_witness:
  "(\<forall>cs. resolves alwaysNextWorld cs) \<and> (\<forall>cs. present alwaysNextWorld cs)
   \<and> (\<exists>s'. init alwaysNextWorld [nodeQuery] newService = Some (InitDone 5 s')
           \<and> lookups (calls s') = 4 \<and> clicks (calls s') = 4
           \<and> requests [(''keywords'', ''Node'')] (calls s') \<le> 4)"
proof -
  have r: "\<forall>cs. resolves alwaysNextWorld cs" and p: "\<forall>cs. present alwaysNextWorld cs"
    by (simp_all add: alwaysNextWorld_def)
  have f: "resolves alwaysNextWorld = (\<lambda>cs. True)" "present alwaysNextWorld = (\<lambda>cs. True)"
    "jobCards alwaysNextWorld = (\<lambda>cs. Some 0)" "storedJobs alwaysNextWorld = Some []"
    by (simp_all add: alwaysNextWorld_def)
  have g: "runQuery alwaysNextWorld nodeQuery s =
             Some (Continues, s\<lparr>calls := calls s @ [Goto [(''keywords'', ''Node'')], WaitForSelector Container,
                                          QuerySelector Container, ScrollToEnd,
                                          QuerySelectorAll Jobs]\<rparr>)" for s
    by (simp add: runQuery_def await_def emit_def f nodeQuery_def buildUrl_def Let_def)
  have n: "nextPage alwaysNextWorld page s =
             Turned (page + 1)
               (s\<lparr>calls := calls s @ [QuerySelector PaginationNextBtn,
                                       ClickHandle PaginationNextBtn,
                                       WaitForSelector Container]\<rparr>)" for page s
    by (simp add: nextPage_def await_def emit_def f Let_def)
  have "\<exists>page s'. init alwaysNextWorld [nodeQuery] newService = Some (InitDone page s')"
    by (simp add: init_def f g n Let_def pageLoop.simps [of alwaysNextWorld "[nodeQuery]"])
  then obtain page s' where
    i: "init alwaysNextWorld [nodeQuery] newService = Some (InitDone page s')"
    by blast
  have m: "asking [(''keywords'', ''Node'')] [nodeQuery] = 1"
    by (simp add: asking_def nodeQuery_def buildUrl_def)
  from pagination_bound [OF i, where p = 1 and ?s0.0 = newService
                               and url = "[(''keywords'', ''Node'')]"] r p m
  have "page = 5" "lookups (calls s') = 4" "clicks (calls s') = 4"
    "requests [(''keywords'', ''Node'')] (calls s') \<le> 4"
    by (auto simp: newService_def lookups_def clicks_def requests_def)
  with i r p show ?thesis by blast
qed

text \<open>
  Claim C9. When, after a pass of getJobs has returned, the paging step fails (the
  lookup of the control, the click on it or the wait for the container rejects), the page
  loop returns at that call: the service is the one getJobs left, with the calls up to the
  rejected one and the same ledger, and the counter is as it was or one more. So init
  returns normally; and once the ledger is read, init never rejects.
\<close>

theorem paging_error_caught:
  "(getJobs w queries s = Some s1 \<and> pagingFails w s1
      \<longrightarrow> (\<exists>page' evs.
             pageLoop w queries page s = Some (page', s1\<lparr>calls := calls s1 @ evs\<rparr>)
           \<and> (evs = [QuerySelector PaginationNextBtn]
              \<or> evs = [QuerySelector PaginationNextBtn, ClickHandle PaginationNextBtn]
              \<or> evs = [QuerySelector PaginationNextBtn, ClickHandle PaginationNextBtn,
                        WaitForSelector Container])
           \<and> \<not> resolves w (calls s1 @ evs)
           \<and> page \<le> page' \<and> page' \<le> page + 1))
   \<and> (storedJobs w = Some stored
        \<and> getJobs w queries ((emit ReadFile s)\<lparr>appliedJobs := stored\<rparr>) = Some s1
        \<and> pagingFails w s1
      \<longrightarrow> (\<exists>page' evs. init w queries s = Some (InitDone page' (s1\<lparr>calls := calls s1 @ evs\<rparr>))))
   \<and> (storedJobs w = Some stored \<and> init w queries s = Some r
      \<longrightarrow> (\<exists>page' s'. r = InitDone page' s'))"
proof -
  have loop: "\<exists>page' evs.
             pageLoop w queries page s = Some (page', s1\<lparr>calls := calls s1 @ evs\<rparr>)
           \<and> (evs = [QuerySelector PaginationNextBtn]
              \<or> evs = [QuerySelector PaginationNextBtn, ClickHandle PaginationNextBtn]
              \<or> evs = [QuerySelector PaginationNextBtn, ClickHandle PaginationNextBtn,
                        WaitForSelector Container])
           \<and> \<not> resolves w (calls s1 @ evs)
           \<and> page \<le> page' \<and> page' \<le> page + 1"
    if g: "getJobs w queries s = Some s1" and f: "pagingFails w s1" for s page
  proof -
    let ?q = "QuerySelector PaginationNextBtn" and ?c = "ClickHandle PaginationNextBtn"
    let ?w = "WaitForSelector Container"
    consider
      (lookup) "\<not> resolves w (calls s1 @ [?q])"
      | (click) "resolves w (calls s1 @ [?q])" "present w (calls s1 @ [?q])"
          "\<not> resolves w (calls s1 @ [?q, ?c])"
      | (wait) "resolves w (calls s1 @ [?q])" "present w (calls s1 @ [?q])"
          "resolves w (calls s1 @ [?q, ?c])" "\<not> resolves w (calls s1 @ [?q, ?c, ?w])"
      using f by (auto simp: pagingFails_def Let_def)
    then show ?thesis
    proof cases
      case lookup
      then have "nextPage w page s1 = Caught page (s1\<lparr>calls := calls s1 @ [?q]\<rparr>)"
        by (simp add: nextPage_def await_def emit_def Let_def)
      with g have "pageLoop w queries page s = Some (page, s1\<lparr>calls := calls s1 @ [?q]\<rparr>)"
        by (simp add: pageLoop.simps [of w queries page s])
      with lookup show ?thesis by auto
    next
      case click
      then have "nextPage w page s1 = Caught (page + 1) (s1\<lparr>calls := calls s1 @ [?q, ?c]\<rparr>)"
        by (simp add: nextPage_def await_def emit_def Let_def)
      with g have "pageLoop w queries page s = Some (page + 1, s1\<lparr>calls := calls s1 @ [?q, ?c]\<rparr>)"
        by (simp add: pageLoop.simps [of w queries page s])
      with click show ?thesis by auto
    next
      case wait
      then have "nextPage w page s1 = Caught (page + 1) (s1\<lparr>calls := calls s1 @ [?q, ?c, ?w]\<rparr>)"
        by (simp add: nextPage_def await_def emit_def Let_def)
      with g have "pageLoop w queries page s = Some (page + 1, s1\<lparr>calls := calls s1 @ [?q, ?c, ?w]\<rparr>)"
        by (simp add: pageLoop.simps [of w queries page s])
      with wait show ?thesis by auto
    qed
  qed
  have a: "getJobs w queries s = Some s1 \<and> pagingFails w s1
      \<longrightarrow> (\<exists>page' evs.
             pageLoop w queries page s = Some (page', s1\<lparr>calls := calls s1 @ evs\<rparr>)
           \<and> (evs = [QuerySelector PaginationNextBtn]
              \<or> evs = [QuerySelector PaginationNextBtn, ClickHandle PaginationNextBtn]
              \<or> evs = [QuerySelector PaginationNextBtn, ClickHandle PaginationNextBtn,
                        WaitForSelector Container])
           \<and> \<not> resolves w (calls s1 @ evs)
           \<and> page \<le> page' \<and> page' \<le> page + 1)"
    using loop by blast
  have b: "storedJobs w = Some stored
        \<and> getJobs w queries ((emit ReadFile s)\<lparr>appliedJobs := stored\<rparr>) = Some s1
        \<and> pagingFails w s1
      \<longrightarrow> (\<exists>page' evs. init w queries s = Some (InitDone page' (s1\<lparr>calls := calls s1 @ evs\<rparr>)))"
  proof (intro impI, elim conjE)
    assume st: "storedJobs w = Some stored"
      and g: "getJobs w queries ((emit ReadFile s)\<lparr>appliedJobs := stored\<rparr>) = Some s1"
      and f: "pagingFails w s1"
    from loop [OF g f, of 1] obtain page' evs where
      "pageLoop w queries 1 ((emit ReadFile s)\<lparr>appliedJobs := stored\<rparr>)
         = Some (page', s1\<lparr>calls := calls s1 @ evs\<rparr>)"
      by blast
    with st have "init w queries s = Some (InitDone page' (s1\<lparr>calls := calls s1 @ evs\<rparr>))"
      by (simp add: init_def Let_def)
    then show "\<exists>page' evs. init w queries s = Some (InitDone page' (s1\<lparr>calls := calls s1 @ evs\<rparr>))"
      by blast
  qed
  have c: "storedJobs w = Some stored \<and> init w queries s = Some r
      \<longrightarrow> (\<exists>page' s'. r = InitDone page' s')"
    by (auto simp: init_def Let_def split: option.splits)
  from a b c show ?thesis by blast
qed

theorem paging_error_caught_witness:
  "\<exists>s1 page'.
       getJobs lookupFailsWorld [nodeQuery] \<lparr>appliedJobs = [], calls = [ReadFile]\<rparr> = Some s1
     \<and> pagingFails lookupFailsWorld s1
     \<and> pageLoop lookupFailsWorld [nodeQuery] 1 \<lparr>appliedJobs = [], calls = [ReadFile]\<rparr>
           = Some (page', s1\<lparr>calls := calls s1 @ [QuerySelector PaginationNextBtn]\<rparr>)
     \<and> init lookupFailsWorld [nodeQuery] newService
           = Some (InitDone page' (s1\<lparr>calls := calls s1 @ [QuerySelector PaginationNextBtn]\<rparr>))"
proof -
  let ?s0 = "\<lparr>appliedJobs = [], calls = [ReadFile]\<rparr>"
  let ?s1 = "\<lparr>appliedJobs = [],
              calls = [ReadFile, Goto [(''keywords'', ''Node'')], WaitForSelector Container,
                       QuerySelector Container, ScrollToEnd, QuerySelectorAll Jobs]\<rparr>"
  have g: "getJobs lookupFailsWorld [nodeQuery] ?s0 = Some ?s1"
    by code_simp
  have f: "pagingFails lookupFailsWorld ?s1"
    by code_simp
  have st: "storedJobs lookupFailsWorld = Some []"
    by (simp add: lookupFailsWorld_def alwaysNextWorld_def)
  have e: "(emit ReadFile newService)\<lparr>appliedJobs := []\<rparr> = ?s0"
    by (simp add: emit_def newService_def)
  from g f paging_error_caught [of lookupFailsWorld "[nodeQuery]" ?s0 ?s1 1]
  obtain page' evs where
    l: "pageLoop lookupFailsWorld [nodeQuery] 1 ?s0 = Some (page', ?s1\<lparr>calls := calls ?s1 @ evs\<rparr>)"
    and v: "evs = [QuerySelector PaginationNextBtn]
              \<or> evs = [QuerySelector PaginationNextBtn, ClickHandle PaginationNextBtn]
              \<or> evs = [QuerySelector PaginationNextBtn, ClickHandle PaginationNextBtn,
                        WaitForSelector Container]"
    and n: "\<not> resolves lookupFailsWorld (calls ?s1 @ evs)"
    by blast
  from v n have evs: "evs = [QuerySelector PaginationNextBtn]"
    by (auto simp: lookupFailsWorld_def)
  from l evs have l': "pageLoop lookupFailsWorld [nodeQuery] 1 ?s0
          = Some (page', ?s1\<lparr>calls := calls ?s1 @ [QuerySelector PaginationNextBtn]\<rparr>)"
    by simp
  with st e have "init lookupFailsWorld [nodeQuery] newService
          = Some (InitDone page' (?s1\<lparr>calls := calls ?s1 @ [QuerySelector PaginationNextBtn]\<rparr>))"
    by (simp add: init_def Let_def)
  with l' g f show ?thesis by blast
qed

end
